theory Spec2Isabelle
  imports Complex_Main "HOL-Library.Word"
begin

section \<open>JavaScript strings\<close>

text \<open>
  A JavaScript string is a sequence of UTF-16 code units. The regular expressions of
  the sources carry no \<open>u\<close> flag, so they match one code unit at a time.
  \<open>str\<close> embeds an ASCII literal.
\<close>

type_synonym jschar = "16 word"
type_synonym jsstring = "jschar list"

definition str :: "string \<Rightarrow> jsstring" where
  "str s = map of_char s"

text \<open>The character class \<open>[a-zA-Z0-9]\<close>.\<close>

definition isAlnum :: "jschar \<Rightarrow> bool" where
  "isAlnum c =
     ((0x61 \<le> c \<and> c \<le> 0x7A) \<or> (0x41 \<le> c \<and> c \<le> 0x5A) \<or> (0x30 \<le> c \<and> c \<le> 0x39))"

text \<open>
  \<open>s.replace(/C/g, r)\<close> for a pattern \<open>C\<close> that matches exactly one code unit:
  every matching unit is replaced by \<open>r\<close>, the others are kept.
\<close>

definition replaceAll :: "(jschar \<Rightarrow> bool) \<Rightarrow> jsstring \<Rightarrow> jsstring \<Rightarrow> jsstring" where
  "replaceAll p r s = concat (map (\<lambda>c. if p c then r else [c]) s)"

text \<open>\<open>name.replace(/ /g, '').replace(/[^a-zA-Z0-9]/g, '_')\<close>\<close>

definition normalizeNameForLogFilenameIdentifiers :: "jsstring \<Rightarrow> jsstring" where
  "normalizeNameForLogFilenameIdentifiers s =
     replaceAll (\<lambda>c. \<not> isAlnum c) (str ''_'') (replaceAll (\<lambda>c. c = 0x20) (str '''') s)"

text \<open>\<open>s.split(sep)\<close> for a separator of one code unit; the result is never empty.\<close>

fun split :: "jschar \<Rightarrow> jsstring \<Rightarrow> jsstring list" where
  "split sep [] = [[]]"
| "split sep (c # cs) =
     (if c = sep then [] # split sep cs
      else (case split sep cs of [] \<Rightarrow> [[c]] | l # ls \<Rightarrow> (c # l) # ls))"

text \<open>\<open>xs.join(sep)\<close>\<close>

fun join :: "jsstring \<Rightarrow> jsstring list \<Rightarrow> jsstring" where
  "join sep [] = []"
| "join sep [x] = x"
| "join sep (x # y # ys) = x @ sep @ join sep (y # ys)"

text \<open>The set of characters a log filename identifier is made of.\<close>

definition isIdentifierChar :: "jschar \<Rightarrow> bool" where
  "isIdentifierChar c = (isAlnum c \<or> c = 0x5F)"

section \<open>JavaScript numbers\<close>

text \<open>
  A JavaScript number is an IEEE 754 double: not a number, an infinity, or a finite
  value \<open>m * 2 ^ e\<close>, negated when the sign \<open>s\<close> is set, with a significand \<open>m\<close>
  below \<open>2 ^ 53\<close> and an exponent \<open>e\<close> from -1074 to 971.
\<close>

datatype double = Finite bool nat int | Infinity bool | NaN

definition isDouble :: "double \<Rightarrow> bool" where
  "isDouble x =
     (case x of Finite s m e \<Rightarrow> m < 2 ^ 53 \<and> - 1074 \<le> e \<and> e \<le> 971 | _ \<Rightarrow> True)"

text \<open>The real number a finite double stands for.\<close>

fun valueOf :: "double \<Rightarrow> real" where
  "valueOf (Finite s m e) = (if s then - 1 else 1) * real m * 2 powi e"
| "valueOf (Infinity s) = 0"
| "valueOf NaN = 0"

text \<open>The number of binary digits of a natural number.\<close>

fun bits :: "nat \<Rightarrow> nat" where
  "bits n = (if n = 0 then 0 else Suc (bits (n div 2)))"

text \<open>
  The double nearest to \<open>M * 2 ^ E\<close> (with the sign \<open>s\<close>), ties to the even
  significand: the significand is cut to 53 binary digits (fewer below the smallest
  normal number), the digits cut off decide the rounding, and a result of
  \<open>2 ^ 1024\<close> or more is an infinity.
\<close>

definition roundFinite :: "bool \<Rightarrow> nat \<Rightarrow> int \<Rightarrow> double" where
  "roundFinite s M E =
     (if M = 0 then Finite s 0 0
      else
        (let e' = max (E + int (bits M) - 53) (- 1074)
         in if e' \<le> E then
              (if e' > 971 then Infinity s else Finite s (M * 2 ^ nat (E - e')) e')
            else
              (let d = nat (e' - E);
                   q = M div 2 ^ d;
                   r = M mod 2 ^ d;
                   half = 2 ^ (d - 1);
                   q' = (if r > half \<or> (r = half \<and> odd q) then q + 1 else q);
                   e = (if q' = 2 ^ 53 then e' + 1 else e');
                   m = (if q' = 2 ^ 53 then 2 ^ 52 else q')
               in if e > 971 then Infinity s else Finite s m e)))"

text \<open>The operator \<open>*\<close> on numbers.\<close>

fun js_mul :: "double \<Rightarrow> double \<Rightarrow> double" where
  "js_mul NaN y = NaN"
| "js_mul x NaN = NaN"
| "js_mul (Infinity s) (Infinity t) = Infinity (s \<noteq> t)"
| "js_mul (Infinity s) (Finite t n f) = (if n = 0 then NaN else Infinity (s \<noteq> t))"
| "js_mul (Finite s m e) (Infinity t) = (if m = 0 then NaN else Infinity (s \<noteq> t))"
| "js_mul (Finite s m e) (Finite t n f) = roundFinite (s \<noteq> t) (m * n) (e + f)"

text \<open>A literal that is a natural number below \<open>2 ^ 53\<close>, such as \<open>1000\<close>.\<close>

definition jsNumber :: "nat \<Rightarrow> double" where
  "jsNumber n = Finite False n 0"

section \<open>Errors, the file system and the terminal\<close>

text \<open>
  What the sources reach through \<open>FileSystem\<close> (node-core-library) and \<open>fs\<close>:
  a store of text files and folder listings, together with the faults a path can
  raise when it is read or written. An operation either returns or throws an
  \<open>error\<close>; \<open>FileSystem.isNotExistError\<close> recognises the codes \<open>ENOENT\<close> and
  \<open>ENOTDIR\<close>.
\<close>

datatype error = ENOENT | ENOTDIR | EACCES | EISDIR | EIO | SyntaxError | SameFileError

fun isNotExistError :: "error \<Rightarrow> bool" where
  "isNotExistError ENOENT = True"
| "isNotExistError ENOTDIR = True"
| "isNotExistError _ = False"

type_synonym path = jsstring

record FolderItem =
  name :: jsstring
  isDirectory :: bool

datatype TerminalProviderSeverity =
  SeverityLog | SeverityWarning | SeverityError | SeverityVerbose | SeverityDebug

datatype TerminalChunkKind = Stdout | Stderr

record ITerminalChunk =
  kind :: TerminalChunkKind
  chunkText :: jsstring

text \<open>A call received by the output sinks: \<open>terminalProvider.write(text, severity)\<close>
  or \<open>terminal.write(data)\<close>.\<close>

datatype output_event =
  ProviderWrite jsstring TerminalProviderSeverity
| TerminalWrite jsstring

record world =
  files :: "path \<rightharpoonup> jsstring"
  folders :: "path \<rightharpoonup> FolderItem list"
  readFault :: "path \<Rightarrow> error option"
  writeFault :: "path \<Rightarrow> error option"
  terminalOutput :: "output_event list"

definition readFileAsync :: "world \<Rightarrow> path \<Rightarrow> error + jsstring" where
  "readFileAsync w p =
     (case readFault w p of
        Some e \<Rightarrow> Inl e
      | None \<Rightarrow>
          (case files w p of
             Some c \<Rightarrow> Inr c
           | None \<Rightarrow> (case folders w p of Some _ \<Rightarrow> Inl EISDIR | None \<Rightarrow> Inl ENOENT)))"

definition writeFileAsync :: "world \<Rightarrow> path \<Rightarrow> jsstring \<Rightarrow> world \<times> (error + unit)" where
  "writeFileAsync w p c =
     (case writeFault w p of
        Some e \<Rightarrow> (w, Inl e)
      | None \<Rightarrow> (w\<lparr>files := (files w)(p \<mapsto> c)\<rparr>, Inr ()))"

text \<open>\<open>FileSystem.copyFileAsync({sourcePath, destinationPath})\<close>: an existing destination
  is overwritten; a copy of a file onto itself is refused.\<close>

definition copyFileAsync :: "world \<Rightarrow> path \<Rightarrow> path \<Rightarrow> world \<times> (error + unit)" where
  "copyFileAsync w src dst =
     (case readFileAsync w src of
        Inl e \<Rightarrow> (w, Inl e)
      | Inr c \<Rightarrow> if src = dst then (w, Inl SameFileError) else writeFileAsync w dst c)"

definition readFolderItemsAsync :: "world \<Rightarrow> path \<Rightarrow> error + FolderItem list" where
  "readFolderItemsAsync w p =
     (case readFault w p of
        Some e \<Rightarrow> Inl e
      | None \<Rightarrow>
          (case folders w p of
             Some items \<Rightarrow> Inr items
           | None \<Rightarrow> (case files w p of Some _ \<Rightarrow> Inl ENOTDIR | None \<Rightarrow> Inl ENOENT)))"

definition exists_path :: "world \<Rightarrow> path \<Rightarrow> bool" where
  "exists_path w p = (files w p \<noteq> None \<or> folders w p \<noteq> None)"

definition providerWrite :: "world \<Rightarrow> jsstring \<Rightarrow> TerminalProviderSeverity \<Rightarrow> world" where
  "providerWrite w t sev = w\<lparr>terminalOutput := terminalOutput w @ [ProviderWrite t sev]\<rparr>"

definition terminalWrite :: "world \<Rightarrow> jsstring \<Rightarrow> world" where
  "terminalWrite w d = w\<lparr>terminalOutput := terminalOutput w @ [TerminalWrite d]\<rparr>"

text \<open>
  A read stream delivers the content of a file in pieces of at most \<open>highWaterMark\<close>
  units (an empty file delivers none); a bound of 0 is read as no bound.
\<close>

function chunksOf :: "nat \<Rightarrow> 'a list \<Rightarrow> 'a list list" where
  "chunksOf n xs =
     (if xs = [] then [] else if n = 0 then [xs] else take n xs # chunksOf n (drop n xs))"
  by pat_completeness auto
termination
  by (relation "measure (\<lambda>(n, xs). length xs)") auto

text \<open>
  \<open>Async.forEachAsync(entries, callback)\<close> without a concurrency option starts the
  callback on every entry; the promise is rejected with the first rejection. The
  callbacks take effect in the order of the array.
\<close>

fun forEachAsync ::
  "(world \<Rightarrow> 'a \<Rightarrow> world \<times> (error + unit)) \<Rightarrow> 'a list \<Rightarrow> world \<Rightarrow> world \<times> (error + unit)" where
  "forEachAsync f [] w = (w, Inr ())"
| "forEachAsync f (x # xs) w =
     (case f w x of
        (w1, r1) \<Rightarrow>
          (case forEachAsync f xs w1 of
             (w2, r2) \<Rightarrow> (w2, (case r1 of Inl e \<Rightarrow> Inl e | Inr _ \<Rightarrow> r2))))"

section \<open>OperationMetadataManager\<close>

record RushConstants =
  projectRushFolderName :: jsstring
  rushTempFolderName :: jsstring

record RushConfigurationProject =
  projectFolder :: path

record IPhase =
  logFilenameIdentifier :: jsstring

text \<open>\<open>Operation.name\<close> is \<open>string | undefined\<close>.\<close>

record Operation =
  name :: "jsstring option"
  associatedProject :: "RushConfigurationProject option"

record IOperationMetadataManagerOptions =
  rushProject :: RushConfigurationProject
  phase :: IPhase
  operation :: Operation

record OperationStateFile =
  filepath :: path
  relativeFilepath :: path

record 'n IOperationStateJson =
  nonCachedDurationMs :: 'n
  cobuildContextId :: "jsstring option"
  cobuildRunnerId :: "jsstring option"

record 'n IOperationMetaData =
  durationInSeconds :: 'n
  logPath :: path
  errorLogPath :: path
  logChunksPath :: path
  cobuildContextId :: "jsstring option"
  cobuildRunnerId :: "jsstring option"

record IFileSystemCopyFileOptions =
  sourcePath :: path
  destinationPath :: path

record OperationMetadataManager =
  stateFile :: OperationStateFile
  logFilenameIdentifier :: jsstring
  this_metadataFolder :: path
  this_logPath :: path
  this_errorLogPath :: path
  this_logChunksPath :: path
  this_relativeLogPath :: path
  this_relativeLogChunksPath :: path
  this_relativeErrorLogPath :: path

text \<open>
  What the manager takes from its surroundings: \<open>JSON.parse\<close> on a line of the
  log-chunks file, the serialisation of the state file, and the read stream's
  chunk bound.
\<close>

record 'n env =
  JSON_parse :: "jsstring \<Rightarrow> error + ITerminalChunk"
  JSON_stringify_state :: "'n IOperationStateJson \<Rightarrow> jsstring"
  JSON_parse_state :: "jsstring \<Rightarrow> error + 'n IOperationStateJson"
  highWaterMark :: nat

text \<open>
  Modelled from the spec: the class \<open>OperationStateFile\<close> is not among the sources.
  Its file is \<open>state.json\<close> in the metadata folder (the manager's own
  documentation of \<open>relativeFilepaths\<close> gives
  \<open>.rush/temp/operation/_phase_build/state.json\<close>).
\<close>

definition new_OperationStateFile :: "path \<Rightarrow> path \<Rightarrow> OperationStateFile" where
  "new_OperationStateFile projectFolder' metadataFolder =
     \<lparr> filepath = projectFolder' @ str ''/'' @ metadataFolder @ str ''/state.json'',
       relativeFilepath = metadataFolder @ str ''/state.json'' \<rparr>"

text \<open>
  Modelled from the spec: \<open>OperationStateFile.writeAsync\<close> is not among the sources.
  Metadata Persistence is the "durable record of an operation's last outcome
  (duration, log paths, cobuild identifiers)": the record handed over is stored,
  serialised, in the state file.
\<close>

definition OperationStateFile_writeAsync ::
  "'n env \<Rightarrow> world \<Rightarrow> OperationStateFile \<Rightarrow> 'n IOperationStateJson \<Rightarrow> world \<times> (error + unit)" where
  "OperationStateFile_writeAsync env w sf st =
     writeFileAsync w (filepath sf) (JSON_stringify_state env st)"

text \<open>
  Modelled from the spec: \<open>OperationStateFile.tryRestoreAsync\<close> is not among the
  sources. It reads the record back; a missing file "is treated as nothing to
  restore, not an error".
\<close>

definition OperationStateFile_tryRestoreAsync ::
  "'n env \<Rightarrow> world \<Rightarrow> OperationStateFile \<Rightarrow> error + 'n IOperationStateJson option" where
  "OperationStateFile_tryRestoreAsync env w sf =
     (case readFileAsync w (filepath sf) of
        Inl e \<Rightarrow> if isNotExistError e then Inr None else Inl e
      | Inr s \<Rightarrow>
          (case JSON_parse_state env s of
             Inl e \<Rightarrow> Inl e
           | Inr st \<Rightarrow> Inr (Some st)))"

text \<open>The constructor. \<open>operation.name ? ... : ...\<close> takes the phase's identifier
  when the name is undefined or empty.\<close>

definition new_OperationMetadataManager ::
  "RushConstants \<Rightarrow> IOperationMetadataManagerOptions \<Rightarrow> OperationMetadataManager" where
  "new_OperationMetadataManager rc options =
     (let pf = projectFolder (rushProject options);
          ident =
            (case Operation.name (operation options) of
               Some n \<Rightarrow>
                 if n \<noteq> [] then normalizeNameForLogFilenameIdentifiers n
                 else IPhase.logFilenameIdentifier (phase options)
             | None \<Rightarrow> IPhase.logFilenameIdentifier (phase options));
          mf = projectRushFolderName rc @ str ''/'' @ rushTempFolderName rc
                 @ str ''/operation/'' @ ident;
          rl = mf @ str ''/all.log'';
          re = mf @ str ''/error.log'';
          rc' = mf @ str ''/log-chunks.jsonl''
      in \<lparr> stateFile = new_OperationStateFile pf mf,
           logFilenameIdentifier = ident,
           this_metadataFolder = mf,
           this_logPath = pf @ str ''/'' @ rl,
           this_errorLogPath = pf @ str ''/'' @ re,
           this_logChunksPath = pf @ str ''/'' @ rc',
           this_relativeLogPath = rl,
           this_relativeLogChunksPath = rc',
           this_relativeErrorLogPath = re \<rparr>)"

definition relativeFilepaths :: "OperationMetadataManager \<Rightarrow> path list" where
  "relativeFilepaths m =
     [relativeFilepath (stateFile m), this_relativeLogPath m, this_relativeErrorLogPath m,
      this_relativeLogChunksPath m]"

text \<open>The callback of \<open>saveAsync\<close>: a copy whose error is a not-exist error is
  swallowed, any other error is thrown again.\<close>

definition tryCopyLogFile :: "world \<Rightarrow> IFileSystemCopyFileOptions \<Rightarrow> world \<times> (error + unit)" where
  "tryCopyLogFile w options =
     (case copyFileAsync w (sourcePath options) (destinationPath options) of
        (w', Inl e) \<Rightarrow> if \<not> isNotExistError e then (w', Inl e) else (w', Inr ())
      | (w', Inr _) \<Rightarrow> (w', Inr ()))"

definition copyFileOptions ::
  "OperationMetadataManager \<Rightarrow> 'n IOperationMetaData \<Rightarrow> IFileSystemCopyFileOptions list" where
  "copyFileOptions m md =
     [\<lparr> sourcePath = logPath md, destinationPath = this_logPath m \<rparr>,
      \<lparr> sourcePath = errorLogPath md, destinationPath = this_errorLogPath m \<rparr>,
      \<lparr> sourcePath = logChunksPath md, destinationPath = this_logChunksPath m \<rparr>]"


definition stateOf :: "double IOperationMetaData \<Rightarrow> double IOperationStateJson" where
  "stateOf md =
     \<lparr> nonCachedDurationMs = js_mul (durationInSeconds md) (jsNumber 1000),
       IOperationStateJson.cobuildContextId = cobuildContextId md,
       IOperationStateJson.cobuildRunnerId = cobuildRunnerId md \<rparr>"

definition saveAsync ::
  "double env \<Rightarrow> OperationMetadataManager \<Rightarrow> world \<Rightarrow> double IOperationMetaData
     \<Rightarrow> world \<times> (error + unit)" where
  "saveAsync env m w md =
     (case OperationStateFile_writeAsync env w (stateFile m) (stateOf md) of
        (w1, Inl e) \<Rightarrow> (w1, Inl e)
      | (w1, Inr _) \<Rightarrow> forEachAsync tryCopyLogFile (copyFileOptions m md) w1)"

text \<open>
  \<open>fs.createReadStream(path, {encoding: 'utf-8'})\<close> iterated with \<open>for await\<close>:
  the data chunks delivered, and the error the iteration ends with, if any.
\<close>

definition createReadStream :: "'n env \<Rightarrow> world \<Rightarrow> path \<Rightarrow> jsstring list \<times> error option" where
  "createReadStream env w p =
     (case readFileAsync w p of
        Inl e \<Rightarrow> ([], Some e)
      | Inr c \<Rightarrow> (chunksOf (highWaterMark env) c, None))"

definition restoreFromLogFile :: "'n env \<Rightarrow> world \<Rightarrow> path \<Rightarrow> world \<times> (error + unit)" where
  "restoreFromLogFile env w p =
     (case createReadStream env w p of
        (datas, err) \<Rightarrow>
          (let w' = foldl terminalWrite w datas
           in (case err of
                 None \<Rightarrow> (w', Inr ())
               | Some e \<Rightarrow> if \<not> isNotExistError e then (w', Inl e) else (w', Inr ()))))"

text \<open>The first loop of \<open>tryRestoreAsync\<close>: every non-empty line is parsed; a line
  that does not parse throws before anything is written.\<close>

fun parseChunks :: "'n env \<Rightarrow> jsstring list \<Rightarrow> error + ITerminalChunk list" where
  "parseChunks env [] = Inr []"
| "parseChunks env (chunk # rest) =
     (if chunk \<noteq> [] then
        (case JSON_parse env chunk of
           Inl e \<Rightarrow> Inl e
         | Inr c \<Rightarrow> (case parseChunks env rest of Inl e \<Rightarrow> Inl e | Inr cs \<Rightarrow> Inr (c # cs)))
      else parseChunks env rest)"

text \<open>The body of the second loop.\<close>

definition writeChunk :: "world \<Rightarrow> ITerminalChunk \<Rightarrow> world" where
  "writeChunk w c =
     (if kind c = Stderr then providerWrite w (chunkText c) SeverityError
      else providerWrite w (chunkText c) SeverityLog)"

text \<open>The first \<open>try\<close> block of \<open>tryRestoreAsync\<close>, then its \<open>catch\<close>.\<close>

definition replayLogChunks :: "'n env \<Rightarrow> OperationMetadataManager \<Rightarrow> world \<Rightarrow> world \<times> (error + unit)" where
  "replayLogChunks env m w =
     (case readFileAsync w (this_logChunksPath m) of
        Inl e \<Rightarrow> (w, Inl e)
      | Inr rawLogChunks \<Rightarrow>
          (case parseChunks env (split 0x0A rawLogChunks) of
             Inl e \<Rightarrow> (w, Inl e)
           | Inr chunks \<Rightarrow> (foldl writeChunk w chunks, Inr ())))"

definition restoreLogs :: "'n env \<Rightarrow> OperationMetadataManager \<Rightarrow> world \<Rightarrow> world \<times> (error + unit)" where
  "restoreLogs env m w =
     (case replayLogChunks env m w of
        (w1, Inl e) \<Rightarrow>
          if isNotExistError e then restoreFromLogFile env w1 (this_logPath m) else (w1, Inl e)
      | (w1, Inr _) \<Rightarrow> (w1, Inr ()))"

definition tryRestoreAsync ::
  "'n env \<Rightarrow> OperationMetadataManager \<Rightarrow> world \<Rightarrow> path \<Rightarrow> world \<times> (error + unit)" where
  "tryRestoreAsync env m w errorLogPath' =
     (case OperationStateFile_tryRestoreAsync env w (stateFile m) of
        Inl e \<Rightarrow> (w, Inl e)
      | Inr _ \<Rightarrow>
          (case restoreLogs env m w of
             (w1, Inl e) \<Rightarrow> (w1, Inl e)
           | (w1, Inr _) \<Rightarrow>
               (case copyFileAsync w1 (this_errorLogPath m) errorLogPath' of
                  (w2, Inl e) \<Rightarrow> if \<not> isNotExistError e then (w2, Inl e) else (w2, Inr ())
                | (w2, Inr _) \<Rightarrow> (w2, Inr ()))))"

subsection \<open>A worked configuration\<close>

text \<open>A project at \<open>/repo/app\<close> whose operation is named \<open>build (prod)\<close>, in the
  folder layout of Rush (\<open>.rush/temp\<close>), on an empty and fault-free file system.\<close>

definition exampleConstants :: RushConstants where
  "exampleConstants = \<lparr> projectRushFolderName = str ''.rush'', rushTempFolderName = str ''temp'' \<rparr>"

definition exampleOptions :: IOperationMetadataManagerOptions where
  "exampleOptions =
     \<lparr> rushProject = \<lparr> projectFolder = str ''/repo/app'' \<rparr>,
       phase = \<lparr> IPhase.logFilenameIdentifier = str ''_phase_build'' \<rparr>,
       operation = \<lparr> name = Some (str ''build (prod)''), associatedProject = None \<rparr> \<rparr>"

definition exampleManager :: OperationMetadataManager where
  "exampleManager = new_OperationMetadataManager exampleConstants exampleOptions"

definition emptyWorld :: world where
  "emptyWorld =
     \<lparr> files = Map.empty, folders = Map.empty, readFault = (\<lambda>_. None),
       writeFault = (\<lambda>_. None), terminalOutput = [] \<rparr>"

text \<open>The decimal digits of a natural number.\<close>

function decimal :: "nat \<Rightarrow> jsstring" where
  "decimal n = (if n < 10 then [of_nat (48 + n)] else decimal (n div 10) @ [of_nat (48 + n mod 10)])"
  by pat_completeness auto
termination
  by (relation "measure (\<lambda>n. n)") auto

text \<open>A number in the state file: a whole number in decimal digits, any other finite
  number as its significand and its binary exponent, \<open>null\<close> when it is not finite.\<close>

definition showNumber :: "double \<Rightarrow> jsstring" where
  "showNumber x =
     (case x of
        Finite s m e \<Rightarrow>
          (if s then str ''-'' else []) @
          (if 0 \<le> e then decimal (m * 2 ^ nat e)
           else if m mod 2 ^ nat (- e) = 0 then decimal (m div 2 ^ nat (- e))
           else decimal m @ str ''p-'' @ decimal (nat (- e)))
      | _ \<Rightarrow> str ''null'')"

text \<open>An environment whose chunk lines are one letter for the kind (\<open>E\<close> for stderr)
  followed by the text, and whose state file holds the number and the two
  identifiers, separated by commas.\<close>

definition exampleEnv :: "double env" where
  "exampleEnv =
     \<lparr> JSON_parse = (\<lambda>l. case l of
           [] \<Rightarrow> Inl SyntaxError
         | k # t \<Rightarrow> Inr \<lparr> kind = (if k = 0x45 then Stderr else Stdout), chunkText = t \<rparr>),
       JSON_stringify_state = (\<lambda>st. showNumber (nonCachedDurationMs st) @ str '',''
           @ (case IOperationStateJson.cobuildContextId st of None \<Rightarrow> [] | Some c \<Rightarrow> c)
           @ str '','' @ (case IOperationStateJson.cobuildRunnerId st of None \<Rightarrow> [] | Some r \<Rightarrow> r)),
       JSON_parse_state = (\<lambda>_. Inl SyntaxError),
       highWaterMark = 4 \<rparr>"

text \<open>The same file system with a saved log-chunks file of two chunks and an empty line.\<close>

definition chunkWorld :: world where
  "chunkWorld = emptyWorld\<lparr>files := [this_logChunksPath exampleManager \<mapsto> str ''Oab\<newline>\<newline>Ecd\<newline>'']\<rparr>"

text \<open>A file system that holds \<open>all.log\<close> only.\<close>

definition logWorld :: world where
  "logWorld = emptyWorld\<lparr>files := [this_logPath exampleManager \<mapsto> str ''hello world'']\<rparr>"

text \<open>The metadata of a run of one and a half seconds, and of one of 1.005 seconds
  (the double nearest to 1.005).\<close>

definition exampleMetaData :: "double IOperationMetaData" where
  "exampleMetaData =
     \<lparr> durationInSeconds = Finite False 3 (- 1),
       logPath = str ''/repo/app/rush-logs/app.log'',
       errorLogPath = str ''/repo/app/rush-logs/app.error.log'',
       logChunksPath = str ''/repo/app/rush-logs/app.chunks.jsonl'',
       cobuildContextId = Some (str ''ctx''),
       cobuildRunnerId = None \<rparr>"

definition slowMetaData :: "double IOperationMetaData" where
  "slowMetaData = exampleMetaData\<lparr>durationInSeconds := Finite False 4526117625507348 (- 52)\<rparr>"

text \<open>A file system after a build that wrote its log and its log chunks and no error log;
  and the same with a log that cannot be read.\<close>

definition builtWorld :: world where
  "builtWorld = emptyWorld\<lparr>files :=
     [str ''/repo/app/rush-logs/app.log'' \<mapsto> str ''out'',
      str ''/repo/app/rush-logs/app.chunks.jsonl'' \<mapsto> str ''Oout'']\<rparr>"


section \<open>ProjectValidatorPlugin: scanning the Heft data folder\<close>

text \<open>The names the plugin takes from Heft's \<open>Constants\<close>, a parameter here.\<close>

record Constants =
  buildCacheFolderName :: jsstring
  projectHeftFolderName :: jsstring
  projectConfigFolderName :: jsstring

record HeftConfiguration =
  projectHeftDataFolder :: path

definition ALLOWED_HEFT_DATA_FOLDER_FILES :: "jsstring set" where
  "ALLOWED_HEFT_DATA_FOLDER_FILES = {}"

definition ALLOWED_HEFT_DATA_FOLDER_SUBFOLDERS :: "Constants \<Rightarrow> jsstring set" where
  "ALLOWED_HEFT_DATA_FOLDER_SUBFOLDERS c = {buildCacheFolderName c}"

text \<open>The double quote of the template strings.\<close>

definition dquote :: jsstring where
  "dquote = [0x22]"

text \<open>The loop over the folder's items; \<open>push\<close> appends.\<close>

fun disallowedItemNames :: "Constants \<Rightarrow> FolderItem list \<Rightarrow> jsstring list \<Rightarrow> jsstring list" where
  "disallowedItemNames c [] acc = acc"
| "disallowedItemNames c (folderItem # rest) acc =
     (let itemName = FolderItem.name folderItem
      in if isDirectory folderItem then
           (if itemName \<notin> ALLOWED_HEFT_DATA_FOLDER_SUBFOLDERS c
            then disallowedItemNames c rest (acc @ [dquote @ itemName @ str ''/'' @ dquote])
            else disallowedItemNames c rest acc)
         else
           (if itemName \<notin> ALLOWED_HEFT_DATA_FOLDER_FILES
            then disallowedItemNames c rest (acc @ [dquote @ itemName @ dquote])
            else disallowedItemNames c rest acc))"

definition unexpectedItemsMessage :: "Constants \<Rightarrow> jsstring list \<Rightarrow> jsstring" where
  "unexpectedItemsMessage c names =
     str ''Found unexpected items in the '' @ dquote @ projectHeftFolderName c @ dquote
       @ str '' folder: '' @ join (str '', '') names
       @ str ''. If any of these are config files, they should go in the project's ''
       @ dquote @ projectConfigFolderName c @ dquote @ str '' folder.''"

text \<open>\<open>_scanHeftDataFolderAsync\<close>: the warnings emitted through the logger, and how the
  call ends.\<close>

definition scanHeftDataFolderAsync ::
  "Constants \<Rightarrow> world \<Rightarrow> HeftConfiguration \<Rightarrow> jsstring list \<times> (error + unit)" where
  "scanHeftDataFolderAsync c w heftConfiguration =
     (case readFolderItemsAsync w (projectHeftDataFolder heftConfiguration) of
        Inl e \<Rightarrow> if \<not> isNotExistError e then ([], Inl e) else ([], Inr ())
      | Inr heftDataFolderContents \<Rightarrow>
          (let names = disallowedItemNames c heftDataFolderContents []
           in if length names > 0 then ([unexpectedItemsMessage c names], Inr ())
              else ([], Inr ())))"

definition heftConstants :: Constants where
  "heftConstants =
     \<lparr> buildCacheFolderName = str ''build-cache'', projectHeftFolderName = str ''.heft'',
       projectConfigFolderName = str ''config'' \<rparr>"

text \<open>A project whose \<open>.heft\<close> folder holds the build cache and a stray file.\<close>

definition heftWorld :: world where
  "heftWorld = emptyWorld\<lparr>folders :=
     [str ''/repo/app/.heft'' \<mapsto>
        [\<lparr> FolderItem.name = str ''build-cache'', isDirectory = True \<rparr>,
         \<lparr> FolderItem.name = str ''a.json'', isDirectory = False \<rparr>]]\<rparr>"

section \<open>PnpmSyncCopyOperationPlugin\<close>

text \<open>
  Modelled from the spec: the enumeration \<open>OperationStatus\<close> is not among the sources;
  these are the states of the operation state machine.
\<close>

datatype OperationStatus =
  Ready | Queued | Executing | Success | SuccessWithWarning | FromCache | NoOp | Skipped
| Blocked | Failure | Cancelled

record OperationExecutionRecord =
  status :: OperationStatus
  operation :: Operation

text \<open>What the hook sets off: the import of the package extractor and the call of
  \<open>pnpmSyncCopyAsync\<close> with the path of the \<open>.pnpm-sync.json\<close> file.\<close>

datatype plugin_action = ImportPackageExtractor | PnpmSyncCopyAsync path

definition afterExecuteOperation :: "world \<Rightarrow> OperationExecutionRecord \<Rightarrow> plugin_action list" where
  "afterExecuteOperation w record =
     (if status record = Skipped \<or> status record = FromCache \<or> status record = NoOp then []
      else
        (case associatedProject (OperationExecutionRecord.operation record) of
           None \<Rightarrow> []
         | Some project \<Rightarrow>
             (let pnpmSyncJsonPath = projectFolder project @ str ''/node_modules/.pnpm-sync.json''
              in if exists_path w pnpmSyncJsonPath
                 then [ImportPackageExtractor, PnpmSyncCopyAsync pnpmSyncJsonPath]
                 else [])))"

definition syncedWorld :: world where
  "syncedWorld = emptyWorld\<lparr>files := [str ''/repo/app/node_modules/.pnpm-sync.json'' \<mapsto> str ''{}'']\<rparr>"

definition appOperation :: Operation where
  "appOperation = \<lparr> name = Some (str ''build''),
     associatedProject = Some \<lparr> projectFolder = str ''/repo/app'' \<rparr> \<rparr>"

section \<open>The scheduler of the operation graph\<close>

text \<open>
  Modelled from the spec: the scheduler and the execution records are not among the
  sources. An operation is a number; the graph gives the operations in declaration
  order and the dependencies of each.
\<close>

type_synonym opId = nat

record graph =
  operations :: "opId list"
  dependencies :: "opId \<Rightarrow> opId list"

record scheduler =
  statusOf :: "opId \<Rightarrow> OperationStatus"
  aborted :: bool

text \<open>
  Modelled from the spec: the terminal non-blocking states are "a status in
  {Success, SuccessWithWarning, FromCache, NoOp, Skipped}"; a dependency in
  \<open>Failure\<close> or \<open>Cancelled\<close>, or itself \<open>Blocked\<close>, blocks its dependents.
\<close>

fun nonBlocking :: "OperationStatus \<Rightarrow> bool" where
  "nonBlocking Success = True"
| "nonBlocking SuccessWithWarning = True"
| "nonBlocking FromCache = True"
| "nonBlocking NoOp = True"
| "nonBlocking Skipped = True"
| "nonBlocking _ = False"

fun blocking :: "OperationStatus \<Rightarrow> bool" where
  "blocking Failure = True"
| "blocking Cancelled = True"
| "blocking Blocked = True"
| "blocking _ = False"

text \<open>
  Modelled from the spec: readiness is not stored; "an Operation becomes eligible the
  instant all of its dependencies reach a terminal, non-blocking state".
\<close>

definition eligible :: "graph \<Rightarrow> scheduler \<Rightarrow> opId \<Rightarrow> bool" where
  "eligible g s op = list_all (\<lambda>d. nonBlocking (statusOf s d)) (dependencies g op)"

definition executingCount :: "graph \<Rightarrow> scheduler \<Rightarrow> nat" where
  "executingCount g s = length (filter (\<lambda>op. statusOf s op = Executing) (operations g))"

definition setStatus :: "scheduler \<Rightarrow> opId \<Rightarrow> OperationStatus \<Rightarrow> scheduler" where
  "setStatus s op st = s\<lparr>statusOf := (statusOf s)(op := st)\<rparr>"

text \<open>
  Modelled from the spec: what the scheduler and the runner can do to the records.
  \<open>Select\<close> is Ready to Queued, \<open>Dispatch\<close> is Queued to Executing once a worker slot
  is free, \<open>ResolveFromCache\<close> and \<open>ResolveNoOp\<close> are the decisions of the cache
  service that need no execution, \<open>Report\<close> is the outcome of the runner, \<open>Block\<close>
  follows a failed, cancelled or blocked dependency, \<open>Abort\<close> is the abort signal and
  \<open>Cancel\<close> what it does to an operation that is not executing yet.
\<close>

datatype event =
  Select opId
| Dispatch opId
| ResolveFromCache opId
| ResolveNoOp opId
| Report opId OperationStatus
| Block opId
| Abort
| Cancel opId

fun step :: "graph \<Rightarrow> nat \<Rightarrow> scheduler \<Rightarrow> event \<Rightarrow> scheduler option" where
  "step g limit s (Select op) =
     (if \<not> aborted s \<and> statusOf s op = Ready \<and> eligible g s op
      then Some (setStatus s op Queued) else None)"
| "step g limit s (Dispatch op) =
     (if \<not> aborted s \<and> statusOf s op = Queued \<and> executingCount g s < limit
      then Some (setStatus s op Executing) else None)"
| "step g limit s (ResolveFromCache op) =
     (if (statusOf s op = Ready \<or> statusOf s op = Queued) \<and> eligible g s op
      then Some (setStatus s op FromCache) else None)"
| "step g limit s (ResolveNoOp op) =
     (if (statusOf s op = Ready \<or> statusOf s op = Queued) \<and> eligible g s op
      then Some (setStatus s op NoOp) else None)"
| "step g limit s (Report op outcome) =
     (if statusOf s op = Executing
         \<and> (outcome = Success \<or> outcome = SuccessWithWarning \<or> outcome = Failure)
      then Some (setStatus s op outcome) else None)"
| "step g limit s (Block op) =
     (if statusOf s op = Ready \<and> list_ex (\<lambda>d. blocking (statusOf s d)) (dependencies g op)
      then Some (setStatus s op Blocked) else None)"
| "step g limit s Abort = Some (s\<lparr>aborted := True\<rparr>)"
| "step g limit s (Cancel op) =
     (if aborted s \<and> (statusOf s op = Ready \<or> statusOf s op = Queued)
      then Some (setStatus s op Cancelled) else None)"

text \<open>A run: the events in the order they happen; \<open>None\<close> when an event is not
  possible where it stands.\<close>

fun run :: "graph \<Rightarrow> nat \<Rightarrow> scheduler \<Rightarrow> event list \<Rightarrow> scheduler option" where
  "run g limit s [] = Some s"
| "run g limit s (ev # evs) =
     (case step g limit s ev of None \<Rightarrow> None | Some s' \<Rightarrow> run g limit s' evs)"

text \<open>
  Modelled from the spec: \<open>Skipped\<close> "is assigned before scheduling begins"; every
  other operation starts \<open>Ready\<close>.
\<close>

definition initial :: "opId list \<Rightarrow> scheduler" where
  "initial skipped =
     \<lparr> statusOf = (\<lambda>op. if op \<in> set skipped then Skipped else Ready), aborted = False \<rparr>"

text \<open>What every reachable state of the scheduler satisfies: a queued or executing
  operation is eligible.\<close>

definition schedulerInv :: "graph \<Rightarrow> scheduler \<Rightarrow> bool" where
  "schedulerInv g s = (\<forall>op. statusOf s op = Queued \<or> statusOf s op = Executing \<longrightarrow> eligible g s op)"

text \<open>The graph of scenario B: operation 1 depends on operation 0.\<close>

definition chainGraph :: graph where
  "chainGraph = \<lparr> operations = [0, 1], dependencies = (\<lambda>op. if op = 1 then [0] else []) \<rparr>"

section \<open>The cobuild coordinator\<close>

text \<open>
  Modelled from the spec: the coordinator and its claim store are not among the
  sources. A claim is the record "{contextId, operationKey, runnerId, state}" with
  "state in {unclaimed, claimed, completed}", kept in a shared store under
  (contextId, operationKey), and "claims carry a heartbeat/expiry".
\<close>

datatype ClaimState = unclaimed | claimed | completed

record CobuildClaim =
  runnerId :: jsstring
  claimState :: ClaimState
  expiresAt :: nat

type_synonym claimStore = "(jsstring \<times> jsstring) \<rightharpoonup> CobuildClaim"

datatype ClaimResult = Claimed | AlreadyClaimed | AlreadyCompleted

text \<open>An "unexpired claimed/completed record".\<close>

definition live :: "nat \<Rightarrow> CobuildClaim \<Rightarrow> bool" where
  "live now c = (claimState c \<noteq> unclaimed \<and> now < expiresAt c)"

text \<open>
  Modelled from the spec: \<open>tryClaim\<close> "implements a compare-and-set against the shared
  claim store: a claim succeeds only if no unexpired claimed/completed record exists
  for that key". The call is one atomic step on the store, at the time \<open>now\<close>; a new
  claim expires \<open>ttl\<close> later.
\<close>

definition tryClaim ::
  "nat \<Rightarrow> nat \<Rightarrow> claimStore \<Rightarrow> jsstring \<Rightarrow> jsstring \<Rightarrow> jsstring \<Rightarrow> claimStore \<times> ClaimResult" where
  "tryClaim ttl now store contextId operationKey runner =
     (let fresh = \<lparr> runnerId = runner, claimState = claimed, expiresAt = now + ttl \<rparr>
      in case store (contextId, operationKey) of
           None \<Rightarrow> (store((contextId, operationKey) \<mapsto> fresh), Claimed)
         | Some c \<Rightarrow>
             if live now c
             then (store, if claimState c = completed then AlreadyCompleted else AlreadyClaimed)
             else (store((contextId, operationKey) \<mapsto> fresh), Claimed))"

text \<open>
  Modelled from the spec: "on natural completion, the record transitions to
  completed", by the runner that holds the claim.
\<close>

definition complete :: "claimStore \<Rightarrow> jsstring \<Rightarrow> jsstring \<Rightarrow> jsstring \<Rightarrow> claimStore" where
  "complete store contextId operationKey runner =
     (case store (contextId, operationKey) of
        None \<Rightarrow> store
      | Some c \<Rightarrow>
          if runnerId c = runner \<and> claimState c = claimed
          then store((contextId, operationKey) \<mapsto> c\<lparr>claimState := completed\<rparr>)
          else store)"

text \<open>
  Modelled from the spec: "holders must refresh the claim while Executing"; a claim
  that has expired is no longer held.
\<close>

definition refresh :: "nat \<Rightarrow> nat \<Rightarrow> claimStore \<Rightarrow> jsstring \<Rightarrow> jsstring \<Rightarrow> jsstring \<Rightarrow> claimStore" where
  "refresh ttl now store contextId operationKey runner =
     (case store (contextId, operationKey) of
        None \<Rightarrow> store
      | Some c \<Rightarrow>
          if runnerId c = runner \<and> claimState c = claimed \<and> now < expiresAt c
          then store((contextId, operationKey) \<mapsto> c\<lparr>expiresAt := now + ttl\<rparr>)
          else store)"

text \<open>The calls of the cooperating runners on one key, in the order the store
  serves them, each with its time; the results of the \<open>tryClaim\<close> calls, each with
  its runner.\<close>

datatype cobuildCall = TryClaim jsstring | Complete jsstring | Refresh jsstring

fun serve ::
  "nat \<Rightarrow> jsstring \<Rightarrow> jsstring \<Rightarrow> claimStore \<Rightarrow> (nat \<times> cobuildCall) list
     \<Rightarrow> claimStore \<times> (jsstring \<times> ClaimResult) list" where
  "serve ttl contextId operationKey store [] = (store, [])"
| "serve ttl contextId operationKey store ((now, TryClaim runner) # rest) =
     (case tryClaim ttl now store contextId operationKey runner of
        (store', res) \<Rightarrow>
          (case serve ttl contextId operationKey store' rest of
             (store'', results) \<Rightarrow> (store'', (runner, res) # results)))"
| "serve ttl contextId operationKey store ((now, Complete runner) # rest) =
     serve ttl contextId operationKey (complete store contextId operationKey runner) rest"
| "serve ttl contextId operationKey store ((now, Refresh runner) # rest) =
     serve ttl contextId operationKey (refresh ttl now store contextId operationKey runner) rest"

definition isTryClaim :: "cobuildCall \<Rightarrow> bool" where
  "isTryClaim call = (case call of TryClaim _ \<Rightarrow> True | _ \<Rightarrow> False)"

text \<open>The runner \<open>r\<close> holds the record of the key until the deadline at least.\<close>

definition heldBy :: "nat \<Rightarrow> claimStore \<Rightarrow> jsstring \<times> jsstring \<Rightarrow> jsstring \<Rightarrow> bool" where
  "heldBy deadline store k r =
     (\<exists>c. store k = Some c \<and> runnerId c = r \<and> claimState c \<noteq> unclaimed \<and> deadline \<le> expiresAt c)"

text \<open>Three runners racing for one key, the first completing in between.\<close>

definition raceCalls :: "(nat \<times> cobuildCall) list" where
  "raceCalls =
     [(0, TryClaim (str ''B'')), (1, TryClaim (str ''A'')), (2, Complete (str ''B'')),
      (3, TryClaim (str ''C''))]"

section \<open>Log filename identifiers\<close>

lemma replaceAll_delete: "replaceAll p [] s = filter (\<lambda>c. \<not> p c) s"
  by (induction s) (simp_all add: replaceAll_def)

lemma replaceAll_single: "replaceAll p [r] s = map (\<lambda>c. if p c then r else c) s"
  by (induction s) (simp_all add: replaceAll_def)

lemma str_underscore: "str ''_'' = [0x5F]"
  by (simp add: str_def)

lemma str_empty: "str '''' = []"
  by (simp add: str_def)

text \<open>
  C9. For every input string, \<open>normalizeNameForLogFilenameIdentifiers\<close> returns a string
  made only of ASCII letters, digits and underscores: every space is removed, and
  every other code unit outside \<open>[a-zA-Z0-9]\<close> is replaced by an underscore
  (letters and digits are kept, in their order).
\<close>

theorem normalizeName_identifier:
  "normalizeNameForLogFilenameIdentifiers s =
     map (\<lambda>c. if isAlnum c then c else 0x5F) (filter (\<lambda>c. c \<noteq> 0x20) s)
   \<and> list_all isIdentifierChar (normalizeNameForLogFilenameIdentifiers s)"
proof -
  have eq: "normalizeNameForLogFilenameIdentifiers s =
      map (\<lambda>c. if isAlnum c then c else 0x5F) (filter (\<lambda>c. c \<noteq> 0x20) s)"
    unfolding normalizeNameForLogFilenameIdentifiers_def str_underscore str_empty
      replaceAll_delete replaceAll_single
    by (rule map_cong) auto
  have "list_all isIdentifierChar
      (map (\<lambda>c. if isAlnum c then c else 0x5F) (filter (\<lambda>c. c \<noteq> 0x20) s))"
    by (auto simp: list_all_iff isIdentifierChar_def)
  with eq show ?thesis by simp
qed

theorem normalizeName_identifier_witness:
  "normalizeNameForLogFilenameIdentifiers (str ''my build-1 (x)'') = str ''mybuild_1_x_''
   \<and> normalizeNameForLogFilenameIdentifiers [0x20, 0xD83D, 0xDE00, 0x41] = [0x5F, 0x5F, 0x41]
   \<and> list_all isIdentifierChar (normalizeNameForLogFilenameIdentifiers (str ''my build-1 (x)''))"
  using normalizeName_identifier [of "str ''my build-1 (x)''"]
    normalizeName_identifier [of "[0x20, 0xD83D, 0xDE00, 0x41]"]
  by (simp add: str_def isAlnum_def isIdentifierChar_def)

section \<open>Replaying saved log chunks\<close>

lemma writeFileAsync_output: "terminalOutput (fst (writeFileAsync w p c)) = terminalOutput w"
  by (simp add: writeFileAsync_def split: option.splits)

lemma copyFileAsync_output: "terminalOutput (fst (copyFileAsync w a b)) = terminalOutput w"
  by (simp add: copyFileAsync_def writeFileAsync_output split: sum.splits)

lemma foldl_writeChunk_output:
  "terminalOutput (foldl writeChunk w cs) =
     terminalOutput w @
       map (\<lambda>c. ProviderWrite (chunkText c) (if kind c = Stderr then SeverityError else SeverityLog)) cs"
  by (induction cs arbitrary: w) (simp_all add: writeChunk_def providerWrite_def)

lemma parseChunks_decoded:
  "map (JSON_parse env) (filter (\<lambda>l. l \<noteq> []) ls) = map Inr chunks
     \<Longrightarrow> parseChunks env ls = Inr chunks"
proof (induction ls arbitrary: chunks)
  case Nil
  then show ?case by simp
next
  case (Cons l ls)
  show ?case
  proof (cases "l = []")
    case True
    with Cons show ?thesis by simp
  next
    case False
    with Cons.prems obtain c cs where cs: "chunks = c # cs" "JSON_parse env l = Inr c"
      "map (JSON_parse env) (filter (\<lambda>l. l \<noteq> []) ls) = map Inr cs"
      by (cases chunks) auto
    with Cons.IH [of cs] False show ?thesis by simp
  qed
qed

text \<open>
  C1. When the state file restores and the saved log-chunks file is read, and its
  non-empty lines decode (by \<open>JSON.parse\<close>) to the chunks \<open>chunks\<close>, in this order,
  then \<open>tryRestoreAsync\<close> writes exactly these chunks to the terminal provider, in the
  order of the file: a chunk of kind \<open>Stderr\<close> at error severity, every other chunk at
  log severity.
\<close>

theorem tryRestoreAsync_replays_chunks:
  assumes restore: "OperationStateFile_tryRestoreAsync env w (stateFile m) = Inr st"
    and saved: "readFileAsync w (this_logChunksPath m) = Inr rawLogChunks"
    and encoded: "map (JSON_parse env) (filter (\<lambda>l. l \<noteq> []) (split 0x0A rawLogChunks)) = map Inr chunks"
  shows "terminalOutput (fst (tryRestoreAsync env m w errorLogPath')) =
     terminalOutput w @
       map (\<lambda>c. ProviderWrite (chunkText c) (if kind c = Stderr then SeverityError else SeverityLog))
         chunks"
proof -
  have parsed: "parseChunks env (split 0x0A rawLogChunks) = Inr chunks"
    using encoded by (rule parseChunks_decoded)
  have logs: "restoreLogs env m w = (foldl writeChunk w chunks, Inr ())"
    by (simp add: restoreLogs_def replayLogChunks_def saved parsed)
  have "terminalOutput (fst (tryRestoreAsync env m w errorLogPath')) =
      terminalOutput (fst (copyFileAsync (foldl writeChunk w chunks) (this_errorLogPath m) errorLogPath'))"
    by (simp add: tryRestoreAsync_def restore logs split: prod.splits sum.splits)
  then show ?thesis
    by (simp add: copyFileAsync_output foldl_writeChunk_output)
qed

lemma exampleManager_paths:
  "this_logChunksPath exampleManager = str ''/repo/app/.rush/temp/operation/build_prod_/log-chunks.jsonl''"
  "this_logPath exampleManager = str ''/repo/app/.rush/temp/operation/build_prod_/all.log''"
  "this_errorLogPath exampleManager = str ''/repo/app/.rush/temp/operation/build_prod_/error.log''"
  "filepath (stateFile exampleManager) = str ''/repo/app/.rush/temp/operation/build_prod_/state.json''"
  by (simp_all add: exampleManager_def new_OperationMetadataManager_def exampleConstants_def
      exampleOptions_def new_OperationStateFile_def Let_def normalizeNameForLogFilenameIdentifiers_def
      replaceAll_def isAlnum_def str_def)

lemma chunkWorld_read:
  "readFileAsync chunkWorld (this_logChunksPath exampleManager) = Inr (str ''Oab\<newline>\<newline>Ecd\<newline>'')"
  by (simp add: readFileAsync_def chunkWorld_def emptyWorld_def)

lemma chunkWorld_state:
  "OperationStateFile_tryRestoreAsync exampleEnv chunkWorld (stateFile exampleManager) = Inr None"
  by (simp add: OperationStateFile_tryRestoreAsync_def readFileAsync_def chunkWorld_def
      emptyWorld_def exampleManager_paths str_def)

lemma example_lines:
  "map (JSON_parse exampleEnv) (filter (\<lambda>l. l \<noteq> []) (split 0x0A (str ''Oab\<newline>\<newline>Ecd\<newline>''))) =
     map Inr [\<lparr> kind = Stdout, chunkText = str ''ab'' \<rparr>, \<lparr> kind = Stderr, chunkText = str ''cd'' \<rparr>]"
  by (simp add: exampleEnv_def str_def)

theorem tryRestoreAsync_replays_chunks_witness:
  "terminalOutput (fst (tryRestoreAsync exampleEnv exampleManager chunkWorld (str ''/tmp/error.log''))) =
     [ProviderWrite (str ''ab'') SeverityLog, ProviderWrite (str ''cd'') SeverityError]"
  using tryRestoreAsync_replays_chunks [OF chunkWorld_state chunkWorld_read example_lines,
      of "str ''/tmp/error.log''"]
  by (simp add: chunkWorld_def emptyWorld_def)

section \<open>Restoring from the plain log file\<close>

declare chunksOf.simps [simp del]

lemma concat_chunksOf: "concat (chunksOf n xs) = xs"
proof (induction n xs rule: chunksOf.induct)
  case (1 n xs)
  show ?case
  proof (cases "xs = [] \<or> n = 0")
    case True
    then show ?thesis by (auto simp: chunksOf.simps [of n xs])
  next
    case False
    with "1" show ?thesis by (simp add: chunksOf.simps [of n xs])
  qed
qed

lemma foldl_terminalWrite_output:
  "terminalOutput (foldl terminalWrite w ds) = terminalOutput w @ map TerminalWrite ds"
  by (induction ds arbitrary: w) (simp_all add: terminalWrite_def)

lemma restoreFromLogFile_present:
  "readFileAsync w p = Inr c \<Longrightarrow>
     restoreFromLogFile env w p = (foldl terminalWrite w (chunksOf (highWaterMark env) c), Inr ())"
  by (simp add: restoreFromLogFile_def createReadStream_def)

lemma restoreFromLogFile_missing:
  "readFileAsync w p = Inl e \<Longrightarrow> isNotExistError e \<Longrightarrow> restoreFromLogFile env w p = (w, Inr ())"
  by (simp add: restoreFromLogFile_def createReadStream_def)

lemma restoreLogs_fallback:
  "readFileAsync w (this_logChunksPath m) = Inl e \<Longrightarrow> isNotExistError e \<Longrightarrow>
     restoreLogs env m w = restoreFromLogFile env w (this_logPath m)"
  by (simp add: restoreLogs_def replayLogChunks_def)

text \<open>
  C3. When the state file restores and reading the stored log-chunks file fails with
  a not-exist error, \<open>tryRestoreAsync\<close> falls back to \<open>restoreFromLogFile\<close> on
  \<open>all.log\<close>: an existing \<open>all.log\<close> is written to the terminal piece by piece, the
  pieces making up its content; and when \<open>all.log\<close> and the stored \<open>error.log\<close> do not
  exist either, \<open>tryRestoreAsync\<close> completes without an error and changes nothing.
\<close>

theorem tryRestoreAsync_missing_chunks:
  assumes restore: "OperationStateFile_tryRestoreAsync env w (stateFile m) = Inr st"
    and missing: "readFileAsync w (this_logChunksPath m) = Inl e" "isNotExistError e"
  shows "restoreLogs env m w = restoreFromLogFile env w (this_logPath m)
    \<and> (\<forall>c. readFileAsync w (this_logPath m) = Inr c \<longrightarrow>
          terminalOutput (fst (tryRestoreAsync env m w errorLogPath')) =
            terminalOutput w @ map TerminalWrite (chunksOf (highWaterMark env) c)
          \<and> concat (chunksOf (highWaterMark env) c) = c)
    \<and> (\<forall>e1 e2. readFileAsync w (this_logPath m) = Inl e1 \<and> isNotExistError e1
          \<and> readFileAsync w (this_errorLogPath m) = Inl e2 \<and> isNotExistError e2 \<longrightarrow>
          tryRestoreAsync env m w errorLogPath' = (w, Inr ()))"
proof (intro conjI allI impI)
  show fb: "restoreLogs env m w = restoreFromLogFile env w (this_logPath m)"
    using missing by (rule restoreLogs_fallback)
  {
    fix c
    assume c: "readFileAsync w (this_logPath m) = Inr c"
    have "terminalOutput (fst (tryRestoreAsync env m w errorLogPath')) =
        terminalOutput (fst (copyFileAsync (foldl terminalWrite w (chunksOf (highWaterMark env) c))
          (this_errorLogPath m) errorLogPath'))"
      by (simp add: tryRestoreAsync_def restore fb restoreFromLogFile_present [OF c]
          split: prod.splits sum.splits)
    then show "terminalOutput (fst (tryRestoreAsync env m w errorLogPath')) =
        terminalOutput w @ map TerminalWrite (chunksOf (highWaterMark env) c)"
      by (simp add: copyFileAsync_output foldl_terminalWrite_output)
    show "concat (chunksOf (highWaterMark env) c) = c"
      by (rule concat_chunksOf)
  }
  {
    fix e1 e2
    assume a: "readFileAsync w (this_logPath m) = Inl e1 \<and> isNotExistError e1
          \<and> readFileAsync w (this_errorLogPath m) = Inl e2 \<and> isNotExistError e2"
    then have "restoreLogs env m w = (w, Inr ())"
      by (simp add: fb restoreFromLogFile_missing)
    with a show "tryRestoreAsync env m w errorLogPath' = (w, Inr ())"
      by (simp add: tryRestoreAsync_def restore copyFileAsync_def)
  }
qed

lemma emptyWorld_read: "readFileAsync emptyWorld p = Inl ENOENT"
  by (simp add: readFileAsync_def emptyWorld_def)

lemma emptyWorld_state:
  "OperationStateFile_tryRestoreAsync exampleEnv emptyWorld sf = Inr None"
  by (simp add: OperationStateFile_tryRestoreAsync_def emptyWorld_read)

lemma logWorld_state:
  "OperationStateFile_tryRestoreAsync exampleEnv logWorld (stateFile exampleManager) = Inr None"
  by (simp add: OperationStateFile_tryRestoreAsync_def readFileAsync_def logWorld_def
      emptyWorld_def exampleManager_paths str_def)

lemma logWorld_chunks: "readFileAsync logWorld (this_logChunksPath exampleManager) = Inl ENOENT"
  by (simp add: readFileAsync_def logWorld_def emptyWorld_def exampleManager_paths str_def)

lemma logWorld_log: "readFileAsync logWorld (this_logPath exampleManager) = Inr (str ''hello world'')"
  by (simp add: readFileAsync_def logWorld_def emptyWorld_def)

lemma chunksOf_hello:
  "chunksOf 4 (str ''hello world'') = [str ''hell'', str ''o wo'', str ''rld'']"
  by (simp add: chunksOf.simps str_def)

theorem tryRestoreAsync_missing_chunks_witness:
  "terminalOutput (fst (tryRestoreAsync exampleEnv exampleManager logWorld (str ''/tmp/error.log''))) =
     [TerminalWrite (str ''hell''), TerminalWrite (str ''o wo''), TerminalWrite (str ''rld'')]
   \<and> tryRestoreAsync exampleEnv exampleManager emptyWorld (str ''/tmp/error.log'') = (emptyWorld, Inr ())"
proof
  have ne: "isNotExistError ENOENT" by simp
  from tryRestoreAsync_missing_chunks [OF logWorld_state logWorld_chunks ne, of "str ''/tmp/error.log''"]
    logWorld_log
  show "terminalOutput (fst (tryRestoreAsync exampleEnv exampleManager logWorld (str ''/tmp/error.log''))) =
     [TerminalWrite (str ''hell''), TerminalWrite (str ''o wo''), TerminalWrite (str ''rld'')]"
    by (simp add: exampleEnv_def chunksOf_hello logWorld_def emptyWorld_def)
  from tryRestoreAsync_missing_chunks [OF emptyWorld_state emptyWorld_read ne, of exampleManager "str ''/tmp/error.log''"]
    emptyWorld_read
  show "tryRestoreAsync exampleEnv exampleManager emptyWorld (str ''/tmp/error.log'') = (emptyWorld, Inr ())"
    by simp
qed

section \<open>Rounding to a double\<close>

declare bits.simps [simp del]

lemma bits_Suc: "2 ^ k \<le> n \<Longrightarrow> n < 2 ^ Suc k \<Longrightarrow> bits n = Suc k"
proof (induction k arbitrary: n)
  case 0
  then have "n = Suc 0" by simp
  then show ?case by (simp add: bits.simps [of "Suc 0"] bits.simps [of 0])
next
  case (Suc k)
  then have "2 ^ k \<le> n div 2" and "n div 2 < 2 ^ Suc k" by auto
  then have "bits (n div 2) = Suc k" by (rule Suc.IH)
  moreover from Suc.prems have "n \<noteq> 0" by auto
  ultimately show ?case by (simp add: bits.simps [of n])
qed

lemma bits_eq: "0 < k \<Longrightarrow> 2 ^ (k - 1) \<le> n \<Longrightarrow> n < 2 ^ k \<Longrightarrow> bits n = k"
  using bits_Suc [of "k - 1" n] by simp

lemma bits_upper: "n < 2 ^ bits n"
proof (induction n rule: bits.induct)
  case (1 n)
  show ?case
  proof (cases "n = 0")
    case True
    then show ?thesis by simp
  next
    case False
    with "1" have "n div 2 < 2 ^ bits (n div 2)" by simp
    then have "n < 2 * 2 ^ bits (n div 2)" by (simp add: less_mult_imp_div_less mult.commute)
    with False show ?thesis by (simp add: bits.simps [of n])
  qed
qed

lemma bits_le: "n < 2 ^ k \<Longrightarrow> bits n \<le> k"
proof (induction k arbitrary: n)
  case 0
  then show ?case by (simp add: bits.simps [of 0])
next
  case (Suc k)
  show ?case
  proof (cases "n = 0")
    case True
    then show ?thesis by (simp add: bits.simps [of 0])
  next
    case False
    from Suc.prems have "n div 2 < 2 ^ k" by auto
    then have "bits (n div 2) \<le> k" by (rule Suc.IH)
    with False show ?thesis by (simp add: bits.simps [of n])
  qed
qed

lemma two_powi_add: "(2::real) powi (a + b) = 2 powi a * 2 powi b"
  by (simp add: power_int_add)

lemma roundFinite_exact:
  assumes "M < 2 ^ 53" and "- 1074 \<le> E" and "E \<le> 971"
  shows "\<exists>q f. roundFinite s M E = Finite s q f \<and> real q * 2 powi f = real M * 2 powi E
           \<and> q < 2 ^ 53 \<and> - 1074 \<le> f \<and> f \<le> 971"
proof (cases "M = 0")
  case True
  then show ?thesis by (simp add: roundFinite_def)
next
  case False
  define e' where "e' = max (E + int (bits M) - 53) (- 1074)"
  from assms(1) have "bits M \<le> 53" by (rule bits_le)
  with assms have le: "e' \<le> E" and lo: "- 1074 \<le> e'" and hi: "e' \<le> 971" and
    sh: "E - e' \<le> 53 - int (bits M)"
    by (auto simp: e'_def)
  have r: "roundFinite s M E = Finite s (M * 2 ^ nat (E - e')) e'"
    using False le hi by (simp add: roundFinite_def Let_def e'_def [symmetric])
  have "(2::real) powi E = 2 powi (int (nat (E - e')) + e')"
    using le by simp
  also have "\<dots> = 2 ^ nat (E - e') * 2 powi e'"
    by (simp only: two_powi_add power_int_of_nat)
  finally have v: "real (M * 2 ^ nat (E - e')) * 2 powi e' = real M * 2 powi E"
    by simp
  have "M * 2 ^ nat (E - e') < 2 ^ bits M * 2 ^ nat (E - e')"
    using bits_upper [of M] by simp
  also have "\<dots> = 2 ^ (bits M + nat (E - e'))" by (simp add: power_add)
  also have "\<dots> \<le> 2 ^ 53"
    using sh le by (intro power_increasing) auto
  finally have "M * 2 ^ nat (E - e') < 2 ^ 53" .
  with r v lo hi show ?thesis by simp
qed

lemma round_step:
  fixes M d :: nat
  assumes d: "0 < d"
    and q': "q' = (if M mod 2 ^ d > 2 ^ (d - 1) \<or> (M mod 2 ^ d = 2 ^ (d - 1) \<and> odd (M div 2 ^ d))
                   then M div 2 ^ d + 1 else M div 2 ^ d)"
  shows "\<bar>real q' * 2 ^ d - real M\<bar> \<le> 2 ^ (d - 1)"
proof -
  define q r where "q = M div 2 ^ d" and "r = M mod 2 ^ d"
  have "M = q * 2 ^ d + r" unfolding q_def r_def by (rule div_mult_mod_eq [symmetric])
  then have "real M = real (q * 2 ^ d + r)" by simp
  then have M: "real M = real q * 2 ^ d + real r" by simp
  have "r < 2 ^ d" by (simp add: r_def)
  then have "real r < real (2 ^ d)" by (simp only: of_nat_less_iff)
  then have r: "real r < 2 ^ d" by simp
  from d have two: "(2::real) ^ d = 2 * 2 ^ (d - 1)"
    by (cases d) simp_all
  have half: "(r > 2 ^ (d - 1)) = (real r > 2 ^ (d - 1))"
  proof -
    have "(real (2 ^ (d - 1)) < real r) = (2 ^ (d - 1) < r)" by (simp only: of_nat_less_iff)
    then show ?thesis by simp
  qed
  have halfeq: "(r = 2 ^ (d - 1)) = (real r = 2 ^ (d - 1))"
  proof -
    have "(real r = real (2 ^ (d - 1))) = (r = 2 ^ (d - 1))" by (simp only: of_nat_eq_iff)
    then show ?thesis by simp
  qed
  show ?thesis
  proof (cases "r > 2 ^ (d - 1) \<or> (r = 2 ^ (d - 1) \<and> odd q)")
    case True
    then have "q' = q + 1" using q' by (simp add: q_def r_def)
    moreover from True have "real r \<ge> 2 ^ (d - 1)" using half halfeq by auto
    ultimately show ?thesis using M r two by (simp add: algebra_simps)
  next
    case False
    then have "q' = q" using q' by (simp add: q_def r_def)
    moreover from False have "real r \<le> 2 ^ (d - 1)" using half by auto
    ultimately show ?thesis using M by simp
  qed
qed

lemma roundFinite_keep:
  assumes "M \<noteq> 0" and "e' = max (E + int (bits M) - 53) (- 1074)" and "e' \<le> E"
  shows "roundFinite s M E =
     (if e' > 971 then Infinity s else Finite s (M * 2 ^ nat (E - e')) e')"
  unfolding roundFinite_def Let_def assms(2) [symmetric] using assms(1,3) by simp

lemma roundFinite_shift:
  assumes "M \<noteq> 0" and "e' = max (E + int (bits M) - 53) (- 1074)" and "\<not> e' \<le> E"
    and "d = nat (e' - E)"
    and "q' = (if M mod 2 ^ d > 2 ^ (d - 1) \<or> (M mod 2 ^ d = 2 ^ (d - 1) \<and> odd (M div 2 ^ d))
                   then M div 2 ^ d + 1 else M div 2 ^ d)"
  shows "roundFinite s M E =
     (if q' = 2 ^ 53 then (if e' + 1 > 971 then Infinity s else Finite s (2 ^ 52) (e' + 1))
      else (if e' > 971 then Infinity s else Finite s q' e'))"
  unfolding roundFinite_def Let_def assms(2) [symmetric] assms(4) [symmetric] assms(5) [symmetric]
  using assms(1,3) by simp

lemma roundFinite_accuracy:
  assumes "roundFinite s M E = Finite t q f"
  shows "t = s \<and> \<bar>real q * 2 powi f - real M * 2 powi E\<bar> \<le> 2 powi f / 2"
proof (cases "M = 0")
  case True
  with assms show ?thesis by (auto simp: roundFinite_def)
next
  case False
  define e' where "e' = max (E + int (bits M) - 53) (- 1074)"
  show ?thesis
  proof (cases "e' \<le> E")
    case True
    from assms have res: "t = s" "q = M * 2 ^ nat (E - e')" "f = e'"
      unfolding roundFinite_keep [OF False e'_def True] by (auto split: if_splits)
    have "(2::real) powi E = 2 powi (int (nat (E - e')) + e')"
      using True by simp
    also have "\<dots> = 2 ^ nat (E - e') * 2 powi e'"
      by (simp only: two_powi_add power_int_of_nat)
    finally have pw: "(2::real) powi E = 2 ^ nat (E - e') * 2 powi e'" .
    have "real q * 2 powi f = real M * (2 ^ nat (E - e') * 2 powi e')"
      by (simp add: res)
    also have "\<dots> = real M * 2 powi E"
      by (simp only: pw)
    finally have eq: "real q * 2 powi f - real M * 2 powi E = 0" by simp
    show ?thesis
      unfolding eq using res(1) by simp
  next
    case shift: False
    define d where "d = nat (e' - E)"
    define q' where "q' = (if M mod 2 ^ d > 2 ^ (d - 1) \<or> (M mod 2 ^ d = 2 ^ (d - 1) \<and> odd (M div 2 ^ d))
                   then M div 2 ^ d + 1 else M div 2 ^ d)"
    from shift have d: "0 < d" and e': "e' = E + int d" by (simp_all add: d_def)
    have err: "\<bar>real q' * 2 ^ d - real M\<bar> \<le> 2 ^ (d - 1)"
      using d q'_def by (rule round_step)
    have pe: "(2::real) powi e' = 2 ^ d * 2 powi E"
      unfolding e' by (simp only: two_powi_add power_int_of_nat mult.commute)
    from d have two: "(2::real) ^ d = 2 * 2 ^ (d - 1)"
      by (cases d) simp_all
    have pos: "(0::real) < 2 powi E" by simp
    have "real q' * 2 powi e' - real M * 2 powi E = (real q' * 2 ^ d - real M) * 2 powi E"
      unfolding pe by (simp add: algebra_simps)
    then have "\<bar>real q' * 2 powi e' - real M * 2 powi E\<bar> = \<bar>real q' * 2 ^ d - real M\<bar> * 2 powi E"
      using pos by (simp only: abs_mult abs_of_pos)
    also have "\<dots> \<le> 2 ^ (d - 1) * 2 powi E"
      using err pos by (simp add: mult_right_mono)
    also have "\<dots> = 2 powi e' / 2"
      unfolding pe two by simp
    finally have bound: "\<bar>real q' * 2 powi e' - real M * 2 powi E\<bar> \<le> 2 powi e' / 2" .
    have up: "(2::real) powi (e' + 1) = 2 * 2 powi e'"
      by (simp add: two_powi_add)
    show ?thesis
    proof (cases "q' = 2 ^ 53")
      case True
      from assms have res: "t = s" "q = 2 ^ 52" "f = e' + 1"
        unfolding roundFinite_shift [OF False e'_def shift d_def q'_def] using True
        by (auto split: if_splits)
      have "real q * 2 powi f = real q' * 2 powi e'"
        by (simp add: res True up)
      moreover have "(2::real) powi e' / 2 \<le> 2 powi f / 2"
        by (simp add: res up)
      ultimately show ?thesis using bound res(1) by simp
    next
      case no: False
      from assms have res: "t = s" "q = q'" "f = e'"
        unfolding roundFinite_shift [OF False e'_def shift d_def q'_def] using no
        by (auto split: if_splits)
      with bound show ?thesis by simp
    qed
  qed
qed

lemma roundFinite_isDouble: "isDouble (roundFinite s M E)"
proof (cases "M = 0")
  case True
  then show ?thesis by (simp add: roundFinite_def isDouble_def)
next
  case False
  define e' where "e' = max (E + int (bits M) - 53) (- 1074)"
  have lo: "- 1074 \<le> e'" by (simp add: e'_def)
  show ?thesis
  proof (cases "e' \<le> E")
    case True
    have "int (bits M) + (E - e') \<le> 53" by (simp add: e'_def)
    with True have sh: "bits M + nat (E - e') \<le> 53" by simp
    have "M * 2 ^ nat (E - e') < 2 ^ bits M * 2 ^ nat (E - e')"
      using bits_upper [of M] by simp
    also have "\<dots> = 2 ^ (bits M + nat (E - e'))" by (simp add: power_add)
    also have "\<dots> \<le> 2 ^ 53"
      using sh by (intro power_increasing) auto
    finally have "M * 2 ^ nat (E - e') < 2 ^ 53" .
    with lo show ?thesis
      unfolding roundFinite_keep [OF False e'_def True] by (simp add: isDouble_def)
  next
    case shift: False
    define d where "d = nat (e' - E)"
    define q' where "q' = (if M mod 2 ^ d > 2 ^ (d - 1) \<or> (M mod 2 ^ d = 2 ^ (d - 1) \<and> odd (M div 2 ^ d))
                   then M div 2 ^ d + 1 else M div 2 ^ d)"
    have "int (bits M) \<le> 53 + (e' - E)" by (simp add: e'_def)
    with shift have "bits M \<le> 53 + d" by (simp add: d_def)
    then have "(2::nat) ^ bits M \<le> 2 ^ (53 + d)" by (intro power_increasing) auto
    with bits_upper [of M] have "M < 2 ^ 53 * 2 ^ d" by (simp add: power_add)
    then have "M div 2 ^ d < 2 ^ 53" by (simp add: less_mult_imp_div_less)
    then have q': "q' \<le> 2 ^ 53" by (simp add: q'_def)
    then have "q' \<noteq> 2 ^ 53 \<Longrightarrow> q' < 2 ^ 53" by simp
    with lo show ?thesis
      unfolding roundFinite_shift [OF False e'_def shift d_def q'_def]
      by (simp add: isDouble_def)
  qed
qed

section \<open>Saving the metadata\<close>

lemma readFileAsync_other:
  "s \<noteq> d \<Longrightarrow> readFileAsync (w\<lparr>files := (files w)(d \<mapsto> c)\<rparr>) s = readFileAsync w s"
  by (simp add: readFileAsync_def cong: option.case_cong)

lemma tryCopyLogFile_ok:
  assumes "writeFault w (destinationPath opt) = None"
    and "\<forall>e. readFileAsync w (sourcePath opt) = Inl e \<longrightarrow> isNotExistError e"
    and "sourcePath opt \<noteq> destinationPath opt"
  shows "tryCopyLogFile w opt =
     ((case readFileAsync w (sourcePath opt) of
         Inr c \<Rightarrow> w\<lparr>files := (files w)(destinationPath opt \<mapsto> c)\<rparr>
       | Inl _ \<Rightarrow> w), Inr ())"
  using assms
  by (auto simp: tryCopyLogFile_def copyFileAsync_def writeFileAsync_def split: sum.splits)

lemma forEachAsync_copies:
  assumes "distinct (map destinationPath os)"
    and "\<forall>opt\<in>set os. writeFault w (destinationPath opt) = None"
    and "\<forall>opt\<in>set os. \<forall>e. readFileAsync w (sourcePath opt) = Inl e \<longrightarrow> isNotExistError e"
    and "sourcePath ` set os \<inter> destinationPath ` set os = {}"
  shows "snd (forEachAsync tryCopyLogFile os w) = Inr ()
    \<and> (\<forall>opt\<in>set os. files (fst (forEachAsync tryCopyLogFile os w)) (destinationPath opt) =
          (case readFileAsync w (sourcePath opt) of
             Inr c \<Rightarrow> Some c
           | Inl _ \<Rightarrow> files w (destinationPath opt)))
    \<and> (\<forall>p. p \<notin> destinationPath ` set os \<longrightarrow>
          files (fst (forEachAsync tryCopyLogFile os w)) p = files w p)"
  using assms
proof (induction os arbitrary: w)
  case Nil
  then show ?case by simp
next
  case (Cons a os)
  define w1 where "w1 = (case readFileAsync w (sourcePath a) of
         Inr c \<Rightarrow> w\<lparr>files := (files w)(destinationPath a \<mapsto> c)\<rparr>
       | Inl _ \<Rightarrow> w)"
  have self: "sourcePath a \<noteq> destinationPath a"
  proof
    assume "sourcePath a = destinationPath a"
    then have "destinationPath a \<in> sourcePath ` set (a # os) \<inter> destinationPath ` set (a # os)"
      by force
    with Cons.prems(4) show False by simp
  qed
  have step: "tryCopyLogFile w a = (w1, Inr ())"
    unfolding w1_def using Cons.prems self by (intro tryCopyLogFile_ok) auto
  have wf: "writeFault w1 = writeFault w" and rf: "readFault w1 = readFault w"
    and fo: "folders w1 = folders w"
    by (simp_all add: w1_def split: sum.splits)
  have files1: "\<And>p. p \<noteq> destinationPath a \<Longrightarrow> files w1 p = files w p"
    by (simp add: w1_def split: sum.splits)
  have filesa: "files w1 (destinationPath a) =
      (case readFileAsync w (sourcePath a) of Inr c \<Rightarrow> Some c | Inl _ \<Rightarrow> files w (destinationPath a))"
    by (simp add: w1_def split: sum.splits)
  have read1: "\<And>s. s \<noteq> destinationPath a \<Longrightarrow> readFileAsync w1 s = readFileAsync w s"
    by (simp add: readFileAsync_def rf fo files1 cong: option.case_cong)
  have src_os: "\<And>opt. opt \<in> set os \<Longrightarrow> sourcePath opt \<noteq> destinationPath a"
  proof
    fix opt
    assume "opt \<in> set os" and "sourcePath opt = destinationPath a"
    then have "destinationPath a \<in> sourcePath ` set (a # os) \<inter> destinationPath ` set (a # os)"
      by force
    with Cons.prems(4) show False by simp
  qed
  have dst_os: "\<And>opt. opt \<in> set os \<Longrightarrow> destinationPath opt \<noteq> destinationPath a"
  proof
    fix opt
    assume "opt \<in> set os" and "destinationPath opt = destinationPath a"
    then have "destinationPath a \<in> destinationPath ` set os"
      by (metis image_eqI)
    with Cons.prems(1) show False by simp
  qed
  have IH: "snd (forEachAsync tryCopyLogFile os w1) = Inr ()
    \<and> (\<forall>opt\<in>set os. files (fst (forEachAsync tryCopyLogFile os w1)) (destinationPath opt) =
          (case readFileAsync w1 (sourcePath opt) of
             Inr c \<Rightarrow> Some c
           | Inl _ \<Rightarrow> files w1 (destinationPath opt)))
    \<and> (\<forall>p. p \<notin> destinationPath ` set os \<longrightarrow>
          files (fst (forEachAsync tryCopyLogFile os w1)) p = files w1 p)"
  proof (rule Cons.IH)
    show "distinct (map destinationPath os)" using Cons.prems(1) by simp
    show "\<forall>opt\<in>set os. writeFault w1 (destinationPath opt) = None"
      using Cons.prems(2) by (simp add: wf)
    show "\<forall>opt\<in>set os. \<forall>e. readFileAsync w1 (sourcePath opt) = Inl e \<longrightarrow> isNotExistError e"
      using Cons.prems(3) by (simp add: read1 src_os)
    show "sourcePath ` set os \<inter> destinationPath ` set os = {}"
      using Cons.prems(4) by auto
  qed
  have run: "forEachAsync tryCopyLogFile (a # os) w =
      (fst (forEachAsync tryCopyLogFile os w1), snd (forEachAsync tryCopyLogFile os w1))"
    by (simp add: step split: prod.splits)
  have a_notin: "destinationPath a \<notin> destinationPath ` set os"
    using Cons.prems(1) by simp
  show ?case
  proof (intro conjI ballI allI impI)
    show "snd (forEachAsync tryCopyLogFile (a # os) w) = Inr ()"
      using IH by (simp add: run del: forEachAsync.simps)
  next
    fix opt
    assume "opt \<in> set (a # os)"
    then consider "opt = a" | "opt \<in> set os" by auto
    then show "files (fst (forEachAsync tryCopyLogFile (a # os) w)) (destinationPath opt) =
          (case readFileAsync w (sourcePath opt) of
             Inr c \<Rightarrow> Some c
           | Inl _ \<Rightarrow> files w (destinationPath opt))"
    proof cases
      case 1
      show ?thesis unfolding 1 using IH a_notin by (simp add: run filesa del: forEachAsync.simps)
    next
      case 2
      then show ?thesis using IH by (simp add: run read1 src_os files1 dst_os del: forEachAsync.simps cong: sum.case_cong)
    qed
  next
    fix p
    assume "p \<notin> destinationPath ` set (a # os)"
    then show "files (fst (forEachAsync tryCopyLogFile (a # os) w)) p = files w p"
      using IH by (simp add: run files1 del: forEachAsync.simps)
  qed
qed

lemma manager_paths:
  assumes "m = new_OperationMetadataManager rc options"
    and "folder = projectFolder (rushProject options) @ str ''/'' @ this_metadataFolder m"
  shows "filepath (stateFile m) = folder @ str ''/state.json''"
    and "this_logPath m = folder @ str ''/all.log''"
    and "this_errorLogPath m = folder @ str ''/error.log''"
    and "this_logChunksPath m = folder @ str ''/log-chunks.jsonl''"
  using assms
  by (simp_all add: new_OperationMetadataManager_def new_OperationStateFile_def Let_def)

lemma metadata_names_distinct:
  "distinct [folder @ str ''/state.json'', folder @ str ''/all.log'', folder @ str ''/error.log'',
     folder @ str ''/log-chunks.jsonl'']"
  by (simp add: str_def)

lemma tryCopyLogFile_files_other:
  "p \<noteq> destinationPath opt \<Longrightarrow> files (fst (tryCopyLogFile w opt)) p = files w p"
  by (simp add: tryCopyLogFile_def copyFileAsync_def writeFileAsync_def
      split: sum.splits option.splits prod.splits if_splits)

lemma forEachAsync_Cons_fst:
  "fst (forEachAsync f (x # xs) w) = fst (forEachAsync f xs (fst (f w x)))"
  by (simp split: prod.splits)


lemma forEachAsync_files_other:
  "p \<notin> destinationPath ` set os \<Longrightarrow> files (fst (forEachAsync tryCopyLogFile os w)) p = files w p"
proof (induction os arbitrary: w)
  case Nil
  then show ?case by simp
next
  case (Cons a os)
  then have "p \<noteq> destinationPath a" and "p \<notin> destinationPath ` set os" by auto
  with Cons.IH [of "fst (tryCopyLogFile w a)"] tryCopyLogFile_files_other [of p a w]
  show ?case by (simp add: forEachAsync_Cons_fst del: forEachAsync.simps)
qed

lemma saveAsync_state_file:
  assumes m: "m = new_OperationMetadataManager rc options"
    and written: "writeFault w (filepath (stateFile m)) = None"
  shows "files (fst (saveAsync env m w md)) (filepath (stateFile m)) =
     Some (JSON_stringify_state env (stateOf md))"
proof -
  define folder where "folder = projectFolder (rushProject options) @ str ''/'' @ this_metadataFolder m"
  note paths = manager_paths [OF m folder_def]
  define w1 where "w1 = w\<lparr>files := (files w)(filepath (stateFile m) \<mapsto> JSON_stringify_state env (stateOf md))\<rparr>"
  have save: "saveAsync env m w md = forEachAsync tryCopyLogFile (copyFileOptions m md) w1"
    by (simp add: saveAsync_def OperationStateFile_writeAsync_def writeFileAsync_def written w1_def)
  have "filepath (stateFile m) \<notin> destinationPath ` set (copyFileOptions m md)"
    using metadata_names_distinct [of folder] by (simp add: copyFileOptions_def paths)
  then have "files (fst (saveAsync env m w md)) (filepath (stateFile m)) = files w1 (filepath (stateFile m))"
    unfolding save by (rule forEachAsync_files_other)
  then show ?thesis by (simp add: w1_def)
qed

lemma exampleManager_new: "exampleManager = new_OperationMetadataManager exampleConstants exampleOptions"
  by (simp add: exampleManager_def)

lemma builtWorld_writable: "writeFault builtWorld p = None"
  by (simp add: builtWorld_def emptyWorld_def)

declare decimal.simps [simp del]

lemma slow_product:
  "js_mul (Finite False 4526117625507348 (- 52)) (jsNumber 1000) = Finite False 8840073487319039 (- 43)"
proof -
  have "bits 4526117625507348000 = 62" by (rule bits_eq) simp_all
  then show ?thesis by (simp add: jsNumber_def roundFinite_def Let_def)
qed

lemma example_product:
  "js_mul (Finite False 3 (- 1)) (jsNumber 1000) = Finite False 6597069766656000 (- 42)"
proof -
  have "bits 3000 = 12" by (rule bits_eq) simp_all
  then show ?thesis by (simp add: jsNumber_def roundFinite_def Let_def)
qed

lemma show_slow: "showNumber (Finite False 8840073487319039 (- 43)) = str ''8840073487319039p-43''"
  by (simp add: showNumber_def decimal.simps str_def)

lemma show_example: "showNumber (Finite False 6597069766656000 (- 42)) = str ''1500''"
  by (simp add: showNumber_def decimal.simps str_def)

text \<open>
  C4, as stated, fails: for a duration of 1.005 seconds (the double nearest to 1.005)
  the state file holds the double \<open>8840073487319039 * 2 ^ -43\<close>, which is
  1004.9999999999999 and lies below 1000 times the duration.
\<close>

theorem saveAsync_rounds_duration:
  "files (fst (saveAsync exampleEnv exampleManager builtWorld slowMetaData))
       (str ''/repo/app/.rush/temp/operation/build_prod_/state.json'') =
     Some (str ''8840073487319039p-43,ctx,'')
   \<and> nonCachedDurationMs (stateOf slowMetaData) = Finite False 8840073487319039 (- 43)
   \<and> valueOf (nonCachedDurationMs (stateOf slowMetaData))
       < 1000 * valueOf (durationInSeconds slowMetaData)"
proof -
  have st: "nonCachedDurationMs (stateOf slowMetaData) = Finite False 8840073487319039 (- 43)"
    by (simp add: stateOf_def slowMetaData_def slow_product)
  have "files (fst (saveAsync exampleEnv exampleManager builtWorld slowMetaData))
       (filepath (stateFile exampleManager)) =
     Some (JSON_stringify_state exampleEnv (stateOf slowMetaData))"
    using exampleManager_new builtWorld_writable by (rule saveAsync_state_file)
  moreover have "JSON_stringify_state exampleEnv (stateOf slowMetaData) = str ''8840073487319039p-43,ctx,''"
    by (simp add: exampleEnv_def st show_slow) (simp add: stateOf_def slowMetaData_def exampleMetaData_def str_def)
  ultimately have stored_file: "files (fst (saveAsync exampleEnv exampleManager builtWorld slowMetaData))
       (str ''/repo/app/.rush/temp/operation/build_prod_/state.json'') =
     Some (str ''8840073487319039p-43,ctx,'')"
    by (simp add: exampleManager_paths)
  have "valueOf (Finite False 8840073487319039 (- 43))
       < 1000 * valueOf (Finite False 4526117625507348 (- 52))"
    by (simp add: power_int_minus field_simps)
  then have "valueOf (nonCachedDurationMs (stateOf slowMetaData))
       < 1000 * valueOf (durationInSeconds slowMetaData)"
    by (simp only: st) (simp add: slowMetaData_def)
  with stored_file st show ?thesis by simp
qed

text \<open>
  C4, amended. When the state file is written, the state file of a manager holds,
  after \<open>saveAsync\<close>, the serialised record whose \<open>nonCachedDurationMs\<close> is the double
  product \<open>durationInSeconds * 1000\<close> and whose \<open>cobuildContextId\<close> and
  \<open>cobuildRunnerId\<close> are the given ones, whatever the copies of the log files do
  afterwards. For a finite duration the product is a double; when it is finite it
  has the sign of the duration and differs from 1000 times the duration by at most
  half a unit of its last binary digit; and it is exactly 1000 times the duration
  when the significand of the duration times 1000 is below \<open>2 ^ 53\<close>.
\<close>

theorem saveAsync_persists_state:
  fixes md :: "double IOperationMetaData"
  assumes m: "m = new_OperationMetadataManager rc options"
    and written: "writeFault w (filepath (stateFile m)) = None"
    and stored: "stored = js_mul (durationInSeconds md) (jsNumber 1000)"
  shows "files (fst (saveAsync env m w md)) (filepath (stateFile m)) =
       Some (JSON_stringify_state env
         \<lparr> nonCachedDurationMs = stored,
           IOperationStateJson.cobuildContextId = cobuildContextId md,
           IOperationStateJson.cobuildRunnerId = cobuildRunnerId md \<rparr>)
    \<and> (\<forall>s n e. durationInSeconds md = Finite s n e \<and> isDouble (Finite s n e) \<longrightarrow>
          isDouble stored
          \<and> (\<forall>t q f. stored = Finite t q f \<longrightarrow>
                t = s \<and> \<bar>valueOf stored - 1000 * valueOf (durationInSeconds md)\<bar> \<le> 2 powi f / 2)
          \<and> (n * 1000 < 2 ^ 53 \<longrightarrow>
                (\<exists>q f. stored = Finite s q f)
                \<and> valueOf stored = 1000 * valueOf (durationInSeconds md)))"
proof (intro conjI allI impI)
  show "files (fst (saveAsync env m w md)) (filepath (stateFile m)) =
       Some (JSON_stringify_state env
         \<lparr> nonCachedDurationMs = stored,
           IOperationStateJson.cobuildContextId = cobuildContextId md,
           IOperationStateJson.cobuildRunnerId = cobuildRunnerId md \<rparr>)"
    using saveAsync_state_file [OF m written, of env md] by (simp add: stateOf_def stored)
next
  fix s n e
  assume d: "durationInSeconds md = Finite s n e \<and> isDouble (Finite s n e)"
  then have st: "stored = roundFinite s (n * 1000) e"
    by (simp add: stored jsNumber_def)
  show "isDouble stored"
    unfolding st by (rule roundFinite_isDouble)
  {
    fix t q f
    assume "stored = Finite t q f"
    then have r: "roundFinite s (n * 1000) e = Finite t q f" by (simp add: st)
    from roundFinite_accuracy [OF r]
    have "t = s" and "\<bar>real q * 2 powi f - real (n * 1000) * 2 powi e\<bar> \<le> 2 powi f / 2"
      by simp_all
    moreover have "valueOf (Finite t q f) - 1000 * valueOf (Finite s n e) =
        (if s then - 1 else 1) * (real q * 2 powi f - real (n * 1000) * 2 powi e)"
      using \<open>t = s\<close> by (simp add: algebra_simps)
    ultimately show "t = s" and "\<bar>valueOf stored - 1000 * valueOf (durationInSeconds md)\<bar> \<le> 2 powi f / 2"
      using d \<open>stored = Finite t q f\<close> by (simp_all add: abs_mult)
  }
  {
    assume small: "n * 1000 < 2 ^ 53"
    from d have "- 1074 \<le> e" and "e \<le> 971" by (simp_all add: isDouble_def)
    with small obtain q f where r: "roundFinite s (n * 1000) e = Finite s q f"
      and v: "real q * 2 powi f = real (n * 1000) * 2 powi e"
      using roundFinite_exact [of "n * 1000" e s] by blast
    from r show "\<exists>q f. stored = Finite s q f" by (simp add: st)
    from r v d show "valueOf stored = 1000 * valueOf (durationInSeconds md)"
      by (simp add: st algebra_simps)
  }
qed

theorem saveAsync_persists_state_witness:
  "files (fst (saveAsync exampleEnv exampleManager builtWorld exampleMetaData))
       (str ''/repo/app/.rush/temp/operation/build_prod_/state.json'') =
     Some (str ''1500,ctx,'')
   \<and> valueOf (js_mul (Finite False 3 (- 1)) (jsNumber 1000)) = 1000 * valueOf (Finite False 3 (- 1))
   \<and> \<bar>valueOf (Finite False 8840073487319039 (- 43))
        - 1000 * valueOf (Finite False 4526117625507348 (- 52))\<bar> \<le> 2 powi (- 43) / 2"
proof -
  have d: "durationInSeconds exampleMetaData = Finite False 3 (- 1) \<and> isDouble (Finite False 3 (- 1))"
    by (simp add: exampleMetaData_def isDouble_def)
  have small: "(3::nat) * 1000 < 2 ^ 53" by simp
  note inst = saveAsync_persists_state [OF exampleManager_new builtWorld_writable refl,
      of exampleEnv exampleMetaData]
  from inst have "files (fst (saveAsync exampleEnv exampleManager builtWorld exampleMetaData))
       (filepath (stateFile exampleManager)) =
       Some (JSON_stringify_state exampleEnv
         \<lparr> nonCachedDurationMs = js_mul (durationInSeconds exampleMetaData) (jsNumber 1000),
           IOperationStateJson.cobuildContextId = cobuildContextId exampleMetaData,
           IOperationStateJson.cobuildRunnerId = cobuildRunnerId exampleMetaData \<rparr>)"
    by blast
  then have a: "files (fst (saveAsync exampleEnv exampleManager builtWorld exampleMetaData))
       (str ''/repo/app/.rush/temp/operation/build_prod_/state.json'') = Some (str ''1500,ctx,'')"
    by (simp add: exampleManager_paths exampleMetaData_def example_product exampleEnv_def show_example)
      (simp add: str_def)
  from inst d small have "valueOf (js_mul (durationInSeconds exampleMetaData) (jsNumber 1000)) =
      1000 * valueOf (durationInSeconds exampleMetaData)"
    by blast
  then have b: "valueOf (js_mul (Finite False 3 (- 1)) (jsNumber 1000)) = 1000 * valueOf (Finite False 3 (- 1))"
    by (simp add: exampleMetaData_def)
  have ds: "durationInSeconds slowMetaData = Finite False 4526117625507348 (- 52)
      \<and> isDouble (Finite False 4526117625507348 (- 52))"
    by (simp add: slowMetaData_def isDouble_def)
  have ss: "js_mul (durationInSeconds slowMetaData) (jsNumber 1000) = Finite False 8840073487319039 (- 43)"
    by (simp add: slowMetaData_def slow_product)
  from saveAsync_persists_state [OF exampleManager_new builtWorld_writable refl,
      of exampleEnv slowMetaData] ds ss
  have "\<bar>valueOf (js_mul (durationInSeconds slowMetaData) (jsNumber 1000))
        - 1000 * valueOf (durationInSeconds slowMetaData)\<bar> \<le> 2 powi (- 43) / 2"
    by blast
  then have c: "\<bar>valueOf (Finite False 8840073487319039 (- 43))
        - 1000 * valueOf (Finite False 4526117625507348 (- 52))\<bar> \<le> 2 powi (- 43) / 2"
    by (simp only: ss) (simp only: slowMetaData_def, simp)
  from a b c show ?thesis by simp
qed

text \<open>
  C5. \<open>saveAsync\<close> copies the files at \<open>logPath\<close>, \<open>errorLogPath\<close> and \<open>logChunksPath\<close>
  to \<open>all.log\<close>, \<open>error.log\<close> and \<open>log-chunks.jsonl\<close> in the metadata folder of the
  operation: each of the three holds the content of its source when the source is
  read, and is left as it was when the source does not exist, whatever happens to
  the other two. The metadata files can be written, the sources are none of them,
  and reading a source raises no error other than a not-exist error.
\<close>

theorem saveAsync_copies_log_files:
  fixes md :: "double IOperationMetaData"
  assumes m: "m = new_OperationMetadataManager rc options"
    and folder: "folder = projectFolder (rushProject options) @ str ''/'' @ this_metadataFolder m"
    and targets: "targets = {folder @ str ''/state.json'', folder @ str ''/all.log'',
        folder @ str ''/error.log'', folder @ str ''/log-chunks.jsonl''}"
    and writable: "\<forall>p\<in>targets. writeFault w p = None"
    and sources: "\<forall>s\<in>{logPath md, errorLogPath md, logChunksPath md}.
        s \<notin> targets \<and> (\<forall>e. readFileAsync w s = Inl e \<longrightarrow> isNotExistError e)"
  shows "snd (saveAsync env m w md) = Inr ()
    \<and> files (fst (saveAsync env m w md)) (folder @ str ''/all.log'') =
        (case readFileAsync w (logPath md) of
           Inr c \<Rightarrow> Some c | Inl _ \<Rightarrow> files w (folder @ str ''/all.log''))
    \<and> files (fst (saveAsync env m w md)) (folder @ str ''/error.log'') =
        (case readFileAsync w (errorLogPath md) of
           Inr c \<Rightarrow> Some c | Inl _ \<Rightarrow> files w (folder @ str ''/error.log''))
    \<and> files (fst (saveAsync env m w md)) (folder @ str ''/log-chunks.jsonl'') =
        (case readFileAsync w (logChunksPath md) of
           Inr c \<Rightarrow> Some c | Inl _ \<Rightarrow> files w (folder @ str ''/log-chunks.jsonl''))"
proof -
  note paths = manager_paths [OF m folder]
  note names = metadata_names_distinct [of folder]
  let ?state = "folder @ str ''/state.json''"
  let ?os = "copyFileOptions m md"
  define w1 where "w1 = w\<lparr>files := (files w)(?state \<mapsto> JSON_stringify_state env (stateOf md))\<rparr>"
  have save: "saveAsync env m w md = forEachAsync tryCopyLogFile ?os w1"
    using writable
    by (simp add: saveAsync_def OperationStateFile_writeAsync_def writeFileAsync_def w1_def paths targets)
  have read1: "\<And>s. s \<noteq> ?state \<Longrightarrow> readFileAsync w1 s = readFileAsync w s"
    unfolding w1_def by (rule readFileAsync_other)
  have files1: "\<And>p. p \<noteq> ?state \<Longrightarrow> files w1 p = files w p"
    by (simp add: w1_def)
  have kept: "files w1 (folder @ str ''/all.log'') = files w (folder @ str ''/all.log'')"
    "files w1 (folder @ str ''/error.log'') = files w (folder @ str ''/error.log'')"
    "files w1 (folder @ str ''/log-chunks.jsonl'') = files w (folder @ str ''/log-chunks.jsonl'')"
    by (simp_all add: w1_def str_def)
  have d: "distinct (map destinationPath ?os)"
    using names by (simp add: copyFileOptions_def paths)
  have wr: "\<forall>opt\<in>set ?os. writeFault w1 (destinationPath opt) = None"
    using writable by (simp add: copyFileOptions_def paths targets w1_def)
  have rd: "\<forall>opt\<in>set ?os. \<forall>e. readFileAsync w1 (sourcePath opt) = Inl e \<longrightarrow> isNotExistError e"
    using sources by (simp add: copyFileOptions_def targets read1)
  have apart: "sourcePath ` set ?os \<inter> destinationPath ` set ?os = {}"
    using sources by (auto simp: copyFileOptions_def paths targets)
  note all = forEachAsync_copies [OF d wr rd apart, folded save]
  have ok: "snd (saveAsync env m w md) = Inr ()"
    using all by simp
  have each: "\<And>opt. opt \<in> set ?os \<Longrightarrow>
      files (fst (saveAsync env m w md)) (destinationPath opt) =
        (case readFileAsync w1 (sourcePath opt) of
           Inr c \<Rightarrow> Some c | Inl _ \<Rightarrow> files w1 (destinationPath opt))"
    using all by simp
  have a: "files (fst (saveAsync env m w md)) (folder @ str ''/all.log'') =
        (case readFileAsync w (logPath md) of
           Inr c \<Rightarrow> Some c | Inl _ \<Rightarrow> files w (folder @ str ''/all.log''))"
    using each [of "\<lparr> sourcePath = logPath md, destinationPath = this_logPath m \<rparr>"] sources names
    by (simp add: copyFileOptions_def paths targets read1 kept cong: sum.case_cong)
  have b: "files (fst (saveAsync env m w md)) (folder @ str ''/error.log'') =
        (case readFileAsync w (errorLogPath md) of
           Inr c \<Rightarrow> Some c | Inl _ \<Rightarrow> files w (folder @ str ''/error.log''))"
    using each [of "\<lparr> sourcePath = errorLogPath md, destinationPath = this_errorLogPath m \<rparr>"] sources names
    by (simp add: copyFileOptions_def paths targets read1 kept cong: sum.case_cong)
  have c: "files (fst (saveAsync env m w md)) (folder @ str ''/log-chunks.jsonl'') =
        (case readFileAsync w (logChunksPath md) of
           Inr c \<Rightarrow> Some c | Inl _ \<Rightarrow> files w (folder @ str ''/log-chunks.jsonl''))"
    using each [of "\<lparr> sourcePath = logChunksPath md, destinationPath = this_logChunksPath m \<rparr>"] sources names
    by (simp add: copyFileOptions_def paths targets read1 kept cong: sum.case_cong)
  from ok a b c show ?thesis by simp
qed

lemma exampleManager_folder:
  "projectFolder (rushProject exampleOptions) @ str ''/'' @ this_metadataFolder exampleManager =
     str ''/repo/app/.rush/temp/operation/build_prod_''"
  by (simp add: exampleManager_def new_OperationMetadataManager_def exampleConstants_def
      exampleOptions_def Let_def normalizeNameForLogFilenameIdentifiers_def
      replaceAll_def isAlnum_def str_def)

lemma builtWorld_reads:
  "readFileAsync builtWorld (str ''/repo/app/rush-logs/app.log'') = Inr (str ''out'')"
  "readFileAsync builtWorld (str ''/repo/app/rush-logs/app.error.log'') = Inl ENOENT"
  "readFileAsync builtWorld (str ''/repo/app/rush-logs/app.chunks.jsonl'') = Inr (str ''Oout'')"
  by (simp_all add: readFileAsync_def builtWorld_def emptyWorld_def str_def)

theorem saveAsync_copies_log_files_witness:
  "snd (saveAsync exampleEnv exampleManager builtWorld exampleMetaData) = Inr ()
   \<and> files (fst (saveAsync exampleEnv exampleManager builtWorld exampleMetaData))
       (str ''/repo/app/.rush/temp/operation/build_prod_/all.log'') = Some (str ''out'')
   \<and> files (fst (saveAsync exampleEnv exampleManager builtWorld exampleMetaData))
       (str ''/repo/app/.rush/temp/operation/build_prod_/error.log'') = None
   \<and> files (fst (saveAsync exampleEnv exampleManager builtWorld exampleMetaData))
       (str ''/repo/app/.rush/temp/operation/build_prod_/log-chunks.jsonl'') = Some (str ''Oout'')"
proof -
  let ?folder = "str ''/repo/app/.rush/temp/operation/build_prod_''"
  let ?targets = "{?folder @ str ''/state.json'', ?folder @ str ''/all.log'',
        ?folder @ str ''/error.log'', ?folder @ str ''/log-chunks.jsonl''}"
  have writable: "\<forall>p\<in>?targets. writeFault builtWorld p = None"
    by (simp add: builtWorld_def emptyWorld_def)
  have sources: "\<forall>s\<in>{logPath exampleMetaData, errorLogPath exampleMetaData, logChunksPath exampleMetaData}.
        s \<notin> ?targets \<and> (\<forall>e. readFileAsync builtWorld s = Inl e \<longrightarrow> isNotExistError e)"
    by (simp add: exampleMetaData_def builtWorld_reads) (simp add: str_def)
  have none: "files builtWorld (?folder @ str ''/error.log'') = None"
    by (simp add: builtWorld_def emptyWorld_def str_def)
  from saveAsync_copies_log_files [OF exampleManager_new exampleManager_folder [symmetric] refl
      writable sources, of exampleEnv]
  show ?thesis
    by (simp add: exampleMetaData_def builtWorld_reads none) (simp add: str_def)
qed











section \<open>Unexpected items in the Heft data folder\<close>

lemma disallowedItemNames_length:
  "length (disallowedItemNames c items acc) =
     length acc + length (filter (\<lambda>i. \<not> isDirectory i \<or> FolderItem.name i \<noteq> buildCacheFolderName c) items)"
  by (induction items arbitrary: acc)
    (auto simp: Let_def ALLOWED_HEFT_DATA_FOLDER_SUBFOLDERS_def ALLOWED_HEFT_DATA_FOLDER_FILES_def)

text \<open>
  C10. \<open>_scanHeftDataFolderAsync\<close> returns silently, with no warning, when reading
  the project's \<open>.heft\<close> data folder fails with a not-exist error. When the folder is
  read, it emits at most one warning, and exactly one if and only if the folder holds
  a disallowed item: an item that is a file (no file is allowed), or a subfolder
  other than the build-cache folder.
\<close>

theorem scanHeftDataFolderAsync_warns_once:
  "(\<forall>e. readFolderItemsAsync w (projectHeftDataFolder hc) = Inl e \<and> isNotExistError e \<longrightarrow>
        scanHeftDataFolderAsync c w hc = ([], Inr ()))
   \<and> (\<forall>items. readFolderItemsAsync w (projectHeftDataFolder hc) = Inr items \<longrightarrow>
        snd (scanHeftDataFolderAsync c w hc) = Inr ()
        \<and> length (fst (scanHeftDataFolderAsync c w hc)) \<le> 1
        \<and> (length (fst (scanHeftDataFolderAsync c w hc)) = 1 \<longleftrightarrow>
             (\<exists>i\<in>set items. \<not> isDirectory i \<or> FolderItem.name i \<noteq> buildCacheFolderName c)))"
proof (intro conjI allI impI)
  fix e
  assume "readFolderItemsAsync w (projectHeftDataFolder hc) = Inl e \<and> isNotExistError e"
  then show "scanHeftDataFolderAsync c w hc = ([], Inr ())"
    by (simp add: scanHeftDataFolderAsync_def)
next
  fix items
  assume r: "readFolderItemsAsync w (projectHeftDataFolder hc) = Inr items"
  let ?bad = "filter (\<lambda>i. \<not> isDirectory i \<or> FolderItem.name i \<noteq> buildCacheFolderName c) items"
  have len: "length (disallowedItemNames c items []) = length ?bad"
    by (simp add: disallowedItemNames_length)
  have scan: "scanHeftDataFolderAsync c w hc =
      (if length ?bad > 0 then ([unexpectedItemsMessage c (disallowedItemNames c items [])], Inr ())
       else ([], Inr ()))"
    by (simp add: scanHeftDataFolderAsync_def r Let_def len del: length_greater_0_conv)
  show "snd (scanHeftDataFolderAsync c w hc) = Inr ()"
    by (simp add: scan)
  show "length (fst (scanHeftDataFolderAsync c w hc)) \<le> 1"
    by (simp add: scan)
  have "(length ?bad > 0) = (\<exists>i\<in>set items. \<not> isDirectory i \<or> FolderItem.name i \<noteq> buildCacheFolderName c)"
    by (auto simp: filter_empty_conv)
  then show "length (fst (scanHeftDataFolderAsync c w hc)) = 1 \<longleftrightarrow>
             (\<exists>i\<in>set items. \<not> isDirectory i \<or> FolderItem.name i \<noteq> buildCacheFolderName c)"
    by (simp add: scan del: length_greater_0_conv)
qed

lemma heftWorld_items:
  "readFolderItemsAsync heftWorld (projectHeftDataFolder \<lparr> projectHeftDataFolder = str ''/repo/app/.heft'' \<rparr>) =
     Inr [\<lparr> FolderItem.name = str ''build-cache'', isDirectory = True \<rparr>,
          \<lparr> FolderItem.name = str ''a.json'', isDirectory = False \<rparr>]"
  by (simp add: readFolderItemsAsync_def heftWorld_def emptyWorld_def)

lemma emptyWorld_items: "readFolderItemsAsync emptyWorld p = Inl ENOENT"
  by (simp add: readFolderItemsAsync_def emptyWorld_def)

theorem scanHeftDataFolderAsync_warns_once_witness:
  "length (fst (scanHeftDataFolderAsync heftConstants heftWorld
       \<lparr> projectHeftDataFolder = str ''/repo/app/.heft'' \<rparr>)) = 1
   \<and> scanHeftDataFolderAsync heftConstants emptyWorld
       \<lparr> projectHeftDataFolder = str ''/repo/app/.heft'' \<rparr> = ([], Inr ())"
proof
  let ?hc = "\<lparr> projectHeftDataFolder = str ''/repo/app/.heft'' \<rparr>"
  from scanHeftDataFolderAsync_warns_once [of heftWorld ?hc heftConstants] heftWorld_items
  show "length (fst (scanHeftDataFolderAsync heftConstants heftWorld ?hc)) = 1"
    by simp
  have "readFolderItemsAsync emptyWorld (projectHeftDataFolder ?hc) = Inl ENOENT \<and> isNotExistError ENOENT"
    by (simp add: emptyWorld_items)
  with scanHeftDataFolderAsync_warns_once [of emptyWorld ?hc heftConstants]
  show "scanHeftDataFolderAsync heftConstants emptyWorld ?hc = ([], Inr ())"
    by blast
qed

section \<open>Copying with pnpm-sync after an operation\<close>

text \<open>
  C8. For a record whose status is \<open>Skipped\<close>, \<open>FromCache\<close> or \<open>NoOp\<close> the
  \<open>afterExecuteOperation\<close> hook does nothing. \<open>pnpmSyncCopyAsync\<close> is called exactly
  when the status is none of the three, the operation has an associated project, and
  \<open>node_modules/.pnpm-sync.json\<close> exists in the folder of that project; it is called
  with the path of that file.
\<close>

theorem afterExecuteOperation_copies_after_execution:
  "(status r = Skipped \<or> status r = FromCache \<or> status r = NoOp \<longrightarrow> afterExecuteOperation w r = [])
   \<and> (PnpmSyncCopyAsync p \<in> set (afterExecuteOperation w r) \<longleftrightarrow>
        status r \<noteq> Skipped \<and> status r \<noteq> FromCache \<and> status r \<noteq> NoOp
        \<and> (\<exists>project. associatedProject (OperationExecutionRecord.operation r) = Some project
              \<and> p = projectFolder project @ str ''/node_modules/.pnpm-sync.json''
              \<and> exists_path w p))"
  by (cases "associatedProject (OperationExecutionRecord.operation r)")
    (auto simp: afterExecuteOperation_def Let_def)

theorem afterExecuteOperation_copies_after_execution_witness:
  "afterExecuteOperation syncedWorld \<lparr> status = FromCache, operation = appOperation \<rparr> = []
   \<and> PnpmSyncCopyAsync (str ''/repo/app/node_modules/.pnpm-sync.json'')
        \<in> set (afterExecuteOperation syncedWorld \<lparr> status = Success, operation = appOperation \<rparr>)
   \<and> PnpmSyncCopyAsync (str ''/repo/app/node_modules/.pnpm-sync.json'')
        \<notin> set (afterExecuteOperation emptyWorld \<lparr> status = Success, operation = appOperation \<rparr>)"
proof -
  have e: "exists_path syncedWorld (str ''/repo/app/node_modules/.pnpm-sync.json'')"
    "\<not> exists_path emptyWorld (str ''/repo/app/node_modules/.pnpm-sync.json'')"
    by (simp_all add: exists_path_def syncedWorld_def emptyWorld_def)
  have p: "projectFolder \<lparr> projectFolder = str ''/repo/app'' \<rparr> @ str ''/node_modules/.pnpm-sync.json'' =
      str ''/repo/app/node_modules/.pnpm-sync.json''"
    by (simp add: str_def)
  from afterExecuteOperation_copies_after_execution
    [of "\<lparr> status = FromCache, operation = appOperation \<rparr>" syncedWorld]
  have a: "afterExecuteOperation syncedWorld \<lparr> status = FromCache, operation = appOperation \<rparr> = []"
    by simp
  from afterExecuteOperation_copies_after_execution
    [of "\<lparr> status = Success, operation = appOperation \<rparr>" syncedWorld
      "str ''/repo/app/node_modules/.pnpm-sync.json''"] e p
  have b: "PnpmSyncCopyAsync (str ''/repo/app/node_modules/.pnpm-sync.json'')
        \<in> set (afterExecuteOperation syncedWorld \<lparr> status = Success, operation = appOperation \<rparr>)"
    by (simp add: appOperation_def)
  from afterExecuteOperation_copies_after_execution
    [of "\<lparr> status = Success, operation = appOperation \<rparr>" emptyWorld
      "str ''/repo/app/node_modules/.pnpm-sync.json''"] e
  have c: "PnpmSyncCopyAsync (str ''/repo/app/node_modules/.pnpm-sync.json'')
        \<notin> set (afterExecuteOperation emptyWorld \<lparr> status = Success, operation = appOperation \<rparr>)"
    by (simp add: appOperation_def)
  from a b c show ?thesis by simp
qed

section \<open>Dispatch after the dependencies\<close>

lemma eligible_setStatus:
  assumes "eligible g s y" and "\<not> nonBlocking (statusOf s x)"
  shows "eligible g (setStatus s x v) y"
proof -
  from assms have "x \<notin> set (dependencies g y)"
    by (auto simp: eligible_def list_all_iff)
  with assms(1) show ?thesis
    by (auto simp: eligible_def list_all_iff setStatus_def)
qed

lemma schedulerInv_setStatus:
  assumes inv: "schedulerInv g s"
    and old: "\<not> nonBlocking (statusOf s x)"
    and new: "v = Queued \<or> v = Executing \<Longrightarrow> eligible g s x"
  shows "schedulerInv g (setStatus s x v)"
  unfolding schedulerInv_def
proof (intro allI impI)
  fix op
  assume a: "statusOf (setStatus s x v) op = Queued \<or> statusOf (setStatus s x v) op = Executing"
  show "eligible g (setStatus s x v) op"
  proof (cases "op = x")
    case True
    with a have "v = Queued \<or> v = Executing" by (simp add: setStatus_def)
    then have "eligible g s x" by (rule new)
    with old True show ?thesis by (simp add: eligible_setStatus)
  next
    case False
    with a have "statusOf s op = Queued \<or> statusOf s op = Executing" by (simp add: setStatus_def)
    with inv have "eligible g s op" by (auto simp: schedulerInv_def)
    with old show ?thesis by (simp add: eligible_setStatus)
  qed
qed

lemma schedulerInv_aborted:
  "schedulerInv g (s\<lparr>aborted := b\<rparr>) = schedulerInv g s"
  by (simp add: schedulerInv_def eligible_def)

lemma schedulerInv_step:
  assumes inv: "schedulerInv g s" and st: "step g limit s ev = Some s'"
  shows "schedulerInv g s'"
proof (cases ev)
  case (Select op)
  with st inv show ?thesis
    by (auto split: if_splits intro!: schedulerInv_setStatus)
next
  case (Dispatch op)
  with st have q: "statusOf s op = Queued" and s': "s' = setStatus s op Executing"
    by (auto split: if_splits)
  from inv q have "eligible g s op" by (auto simp: schedulerInv_def)
  with inv q show ?thesis unfolding s'
    by (intro schedulerInv_setStatus) simp_all
next
  case (ResolveFromCache op)
  with st inv show ?thesis
    by (auto split: if_splits intro!: schedulerInv_setStatus)
next
  case (ResolveNoOp op)
  with st inv show ?thesis
    by (auto split: if_splits intro!: schedulerInv_setStatus)
next
  case (Report op outcome)
  with st inv show ?thesis
    by (auto split: if_splits intro!: schedulerInv_setStatus)
next
  case (Block op)
  with st inv show ?thesis
    by (auto split: if_splits intro!: schedulerInv_setStatus)
next
  case Abort
  with st inv show ?thesis
    by (auto simp: schedulerInv_aborted)
next
  case (Cancel op)
  with st inv show ?thesis
    by (auto split: if_splits intro!: schedulerInv_setStatus)
qed

lemma schedulerInv_run:
  "schedulerInv g s \<Longrightarrow> run g limit s evs = Some s' \<Longrightarrow> schedulerInv g s'"
proof (induction evs arbitrary: s)
  case Nil
  then show ?case by simp
next
  case (Cons ev evs)
  then obtain s1 where s1: "step g limit s ev = Some s1" "run g limit s1 evs = Some s'"
    by (auto split: option.splits)
  from Cons.prems(1) s1(1) have "schedulerInv g s1" by (rule schedulerInv_step)
  then show ?case using s1(2) by (rule Cons.IH)
qed

lemma schedulerInv_initial: "schedulerInv g (initial skipped)"
  by (simp add: schedulerInv_def initial_def)

text \<open>
  C6. In every state a run of the scheduler reaches from its initial state, an
  operation whose status is \<open>Executing\<close> has every one of its dependencies in a
  terminal non-blocking state: \<open>Success\<close>, \<open>SuccessWithWarning\<close>, \<open>FromCache\<close>, \<open>NoOp\<close>
  or \<open>Skipped\<close>.
\<close>

theorem executing_after_dependencies:
  assumes "run g limit (initial skipped) evs = Some s"
    and "statusOf s op = Executing"
    and "d \<in> set (dependencies g op)"
  shows "statusOf s d \<in> {Success, SuccessWithWarning, FromCache, NoOp, Skipped}"
proof -
  have "schedulerInv g s"
    using schedulerInv_initial assms(1) by (rule schedulerInv_run)
  with assms(2) have "eligible g s op" by (auto simp: schedulerInv_def)
  with assms(3) have "nonBlocking (statusOf s d)" by (simp add: eligible_def list_all_iff)
  then show ?thesis by (cases "statusOf s d") simp_all
qed

lemma chain_run:
  "run chainGraph 1 (initial []) [Select 0, Dispatch 0, Report 0 Success, Select 1, Dispatch 1] =
     Some \<lparr> statusOf = (\<lambda>op. if op = 1 then Executing else if op = 0 then Success else Ready),
            aborted = False \<rparr>"
  by (simp add: chainGraph_def initial_def eligible_def executingCount_def setStatus_def fun_eq_iff)

lemma chain_blocked:
  "run chainGraph 1 (initial []) [Select 0, Dispatch 0, Dispatch 1] = None"
  "run chainGraph 1 (initial []) [Select 1] = None"
  by (simp_all add: chainGraph_def initial_def eligible_def executingCount_def setStatus_def)

theorem executing_after_dependencies_witness:
  "statusOf \<lparr> statusOf = (\<lambda>op. if op = 1 then Executing else if op = 0 then Success else Ready),
            aborted = False \<rparr> 0 \<in> {Success, SuccessWithWarning, FromCache, NoOp, Skipped}
   \<and> run chainGraph 1 (initial []) [Select 0, Dispatch 0, Report 0 Success, Select 1, Dispatch 1] =
     Some \<lparr> statusOf = (\<lambda>op. if op = 1 then Executing else if op = 0 then Success else Ready),
            aborted = False \<rparr>"
proof -
  have "(0::nat) \<in> set (dependencies chainGraph 1)" by (simp add: chainGraph_def)
  from executing_after_dependencies [OF chain_run _ this] chain_run
  show ?thesis by simp
qed

section \<open>Mutual exclusion of cobuild claims\<close>

lemma heldBy_tryClaim:
  assumes "heldBy (start + ttl) store (cid, key) r" and "now < start + ttl"
  shows "fst (tryClaim ttl now store cid key r') = store"
    and "snd (tryClaim ttl now store cid key r') \<noteq> Claimed"
  using assms by (auto simp: heldBy_def tryClaim_def live_def Let_def split: if_splits)

lemma heldBy_complete:
  assumes "heldBy d store (cid, key) r"
  shows "heldBy d (complete store cid key r') (cid, key) r"
  using assms by (auto simp: heldBy_def complete_def)

lemma heldBy_refresh:
  assumes "heldBy (start + ttl) store (cid, key) r" and "start \<le> now"
  shows "heldBy (start + ttl) (refresh ttl now store cid key r') (cid, key) r"
  using assms by (auto simp: heldBy_def refresh_def)

lemma serve_held:
  assumes "heldBy (start + ttl) store (cid, key) r"
    and "\<forall>(t, call)\<in>set calls. start \<le> t \<and> t < start + ttl"
  shows "heldBy (start + ttl) (fst (serve ttl cid key store calls)) (cid, key) r
    \<and> (\<forall>(r', res)\<in>set (snd (serve ttl cid key store calls)). res \<noteq> Claimed)"
  using assms
proof (induction calls arbitrary: store)
  case Nil
  then show ?case by simp
next
  case (Cons a calls)
  obtain now call where a: "a = (now, call)" by (cases a)
  with Cons.prems have now: "start \<le> now" "now < start + ttl"
    and rest: "\<forall>(t, call)\<in>set calls. start \<le> t \<and> t < start + ttl"
    by auto
  show ?case
  proof (cases call)
    case (TryClaim r')
    from heldBy_tryClaim [OF Cons.prems(1) now(2), of r']
    obtain res where t: "tryClaim ttl now store cid key r' = (store, res)" "res \<noteq> Claimed"
      by (cases "tryClaim ttl now store cid key r'") auto
    with Cons.IH [OF Cons.prems(1) rest] a TryClaim show ?thesis
      by (auto split: prod.splits)
  next
    case (Complete r')
    with Cons.IH [OF heldBy_complete [OF Cons.prems(1)] rest] a show ?thesis by simp
  next
    case (Refresh r')
    with Cons.IH [OF heldBy_refresh [OF Cons.prems(1) now(1)] rest] a show ?thesis by simp
  qed
qed

lemma free_complete:
  assumes "\<forall>c. store (cid, key) = Some c \<longrightarrow> \<not> live start c"
  shows "\<forall>c. complete store cid key r' (cid, key) = Some c \<longrightarrow> \<not> live start c"
  using assms by (auto simp: complete_def live_def split: option.splits)

lemma free_refresh:
  assumes "\<forall>c. store (cid, key) = Some c \<longrightarrow> \<not> live start c" and "start \<le> now"
  shows "refresh ttl now store cid key r' = store"
  using assms by (auto simp: refresh_def live_def split: option.splits)

lemma free_tryClaim:
  assumes "\<forall>c. store (cid, key) = Some c \<longrightarrow> \<not> live start c" and "start \<le> now"
  shows "snd (tryClaim ttl now store cid key r) = Claimed"
    and "heldBy (start + ttl) (fst (tryClaim ttl now store cid key r)) (cid, key) r"
  using assms by (auto simp: tryClaim_def live_def heldBy_def Let_def split: option.splits)

lemma serve_free:
  assumes "\<forall>c. store (cid, key) = Some c \<longrightarrow> \<not> live start c"
    and "\<forall>(t, call)\<in>set calls. start \<le> t \<and> t < start + ttl"
    and "\<exists>(t, call)\<in>set calls. isTryClaim call"
  shows "\<exists>r. filter (\<lambda>(r', res). res = Claimed) (snd (serve ttl cid key store calls)) = [(r, Claimed)]
      \<and> heldBy (start + ttl) (fst (serve ttl cid key store calls)) (cid, key) r"
  using assms
proof (induction calls arbitrary: store)
  case Nil
  then show ?case by simp
next
  case (Cons a calls)
  obtain now call where a: "a = (now, call)" by (cases a)
  with Cons.prems have now: "start \<le> now" "now < start + ttl"
    and rest: "\<forall>(t, call)\<in>set calls. start \<le> t \<and> t < start + ttl"
    by auto
  show ?case
  proof (cases call)
    case (TryClaim r)
    obtain store' res where t: "tryClaim ttl now store cid key r = (store', res)"
      by (cases "tryClaim ttl now store cid key r")
    with free_tryClaim [where store = store and cid = cid and key = key and start = start
        and now = now and ttl = ttl and r = r, OF Cons.prems(1) now(1)]
    have res: "res = Claimed" and held: "heldBy (start + ttl) store' (cid, key) r"
      by simp_all
    from serve_held [OF held rest]
    have "heldBy (start + ttl) (fst (serve ttl cid key store' calls)) (cid, key) r"
      and "filter (\<lambda>(r', res). res = Claimed) (snd (serve ttl cid key store' calls)) = []"
      by (auto simp: filter_empty_conv)
    with a TryClaim t res show ?thesis
      by (auto split: prod.splits)
  next
    case (Complete r')
    with Cons.prems(3) a have ex: "\<exists>(t, call)\<in>set calls. isTryClaim call"
      by (auto simp: isTryClaim_def)
    from Cons.IH [of "complete store cid key r'",
        OF free_complete [where store = store, OF Cons.prems(1)] rest ex] a Complete
    show ?thesis by simp
  next
    case (Refresh r')
    with Cons.prems(3) a have ex: "\<exists>(t, call)\<in>set calls. isTryClaim call"
      by (auto simp: isTryClaim_def)
    from Cons.IH [of store, OF Cons.prems(1) rest ex] a Refresh
      free_refresh [where store = store, OF Cons.prems(1) now(1)]
    show ?thesis by simp
  qed
qed

lemma isTryClaim_simps:
  "isTryClaim (TryClaim r) = True"
  "isTryClaim (Complete r) = False"
  "isTryClaim (Refresh r) = False"
  by (simp_all add: isTryClaim_def)

lemma serve_TryClaim:
  "snd (serve ttl cid key store ((now, TryClaim r) # rest)) =
     (r, snd (tryClaim ttl now store cid key r))
       # snd (serve ttl cid key (fst (tryClaim ttl now store cid key r)) rest)"
  "fst (serve ttl cid key store ((now, TryClaim r) # rest)) =
     fst (serve ttl cid key (fst (tryClaim ttl now store cid key r)) rest)"
  by (simp_all split: prod.splits)

lemma serve_length:
  "length (snd (serve ttl cid key store calls)) = length (filter (\<lambda>(t, call). isTryClaim call) calls)"
proof (induction calls arbitrary: store)
  case Nil
  then show ?case by simp
next
  case (Cons a calls)
  obtain now call where a: "a = (now, call)" by (cases a)
  show ?case
    by (cases call) (simp_all add: a Cons.IH isTryClaim_simps serve_TryClaim del: serve.simps(2))
qed

lemma results_partition:
  "length (filter (\<lambda>(r, res). res = Claimed) rs)
     + length (filter (\<lambda>(r, res). res = AlreadyClaimed \<or> res = AlreadyCompleted) rs) = length rs"
proof (induction rs)
  case Nil
  then show ?case by simp
next
  case (Cons a rs)
  obtain r res where "a = (r, res)" by (cases a)
  with Cons show ?case by (cases res) simp_all
qed

text \<open>
  C7. The runners' calls on one key are served one at a time by the store. When the
  key has no unexpired claimed or completed record at the time \<open>start\<close>, and all the
  calls are served from \<open>start\<close> on and before a claim made at \<open>start\<close> would expire,
  then of the N \<open>tryClaim\<close> calls exactly one returns \<open>Claimed\<close>, the other N - 1
  return \<open>AlreadyClaimed\<close> or \<open>AlreadyCompleted\<close>, and the record of the key is held
  by the runner that was answered \<open>Claimed\<close>.
\<close>

theorem tryClaim_exactly_one_claimed:
  assumes fresh: "\<forall>c. store (contextId, operationKey) = Some c \<longrightarrow> \<not> live start c"
    and window: "\<forall>(t, call)\<in>set calls. start \<le> t \<and> t < start + ttl"
    and some: "\<exists>(t, call)\<in>set calls. isTryClaim call"
    and results: "results = snd (serve ttl contextId operationKey store calls)"
  shows "length results = length (filter (\<lambda>(t, call). isTryClaim call) calls)
    \<and> length (filter (\<lambda>(r, res). res = AlreadyClaimed \<or> res = AlreadyCompleted) results) = length results - 1
    \<and> (\<exists>r. filter (\<lambda>(r', res). res = Claimed) results = [(r, Claimed)]
          \<and> (\<exists>c. fst (serve ttl contextId operationKey store calls) (contextId, operationKey) = Some c
                \<and> runnerId c = r))"
proof -
  from serve_free [where store = store, OF fresh window some] obtain r where
    one: "filter (\<lambda>(r', res). res = Claimed) results = [(r, Claimed)]"
    and held: "heldBy (start + ttl) (fst (serve ttl contextId operationKey store calls)) (contextId, operationKey) r"
    unfolding results by blast
  from one have "length (filter (\<lambda>(r', res). res = Claimed) results) = 1" by simp
  with results_partition [of results]
  have others: "length (filter (\<lambda>(r, res). res = AlreadyClaimed \<or> res = AlreadyCompleted) results) = length results - 1"
    by simp
  from held have "\<exists>c. fst (serve ttl contextId operationKey store calls) (contextId, operationKey) = Some c
      \<and> runnerId c = r"
    by (auto simp: heldBy_def)
  with one others show ?thesis
    unfolding results by (auto simp: serve_length)
qed

lemma race_results:
  "snd (serve 10 (str ''ctx'') (str ''op'') Map.empty raceCalls) =
     [(str ''B'', Claimed), (str ''A'', AlreadyClaimed), (str ''C'', AlreadyCompleted)]"
  by (simp add: raceCalls_def tryClaim_def complete_def live_def Let_def str_def)

theorem tryClaim_exactly_one_claimed_witness:
  "length (filter (\<lambda>(r, res). res = AlreadyClaimed \<or> res = AlreadyCompleted)
      (snd (serve 10 (str ''ctx'') (str ''op'') Map.empty raceCalls))) = 2
   \<and> filter (\<lambda>(r', res). res = Claimed) (snd (serve 10 (str ''ctx'') (str ''op'') Map.empty raceCalls)) =
       [(str ''B'', Claimed)]"
proof -
  have fresh: "\<forall>c. (Map.empty :: claimStore) (str ''ctx'', str ''op'') = Some c \<longrightarrow> \<not> live 0 c"
    by simp
  have window: "\<forall>(t, call)\<in>set raceCalls. 0 \<le> t \<and> t < 0 + 10"
    by (simp add: raceCalls_def)
  have some: "\<exists>(t, call)\<in>set raceCalls. isTryClaim call"
    by (simp add: raceCalls_def isTryClaim_def)
  from tryClaim_exactly_one_claimed [where store = Map.empty, OF fresh window some refl]
  show ?thesis
    by (simp add: race_results)
qed

end
